theory Spec2Isabelle
  imports Main "HOL-Library.Word"
begin

section \<open>File Copier: exceptions, strings and folder-name validation\<close>

text \<open>
  The development follows the package under \<open>src/src\<close> (the one \<open>main.py\<close> runs):
  \<open>utils.py\<close>, \<open>file_handler.py\<close> and \<open>file_monitor.py\<close>.

  Python exceptions are values. \<open>KeyboardInterrupt\<close> stands for the exceptions that are
  not subclasses of \<open>Exception\<close>; an \<open>except Exception\<close> clause lets it pass.
\<close>

datatype exn =
    OSError string
  | ZeroDivisionError
  | EOFError
  | KeyError
  | RuntimeError string
  | ValidationError string
  | KeyboardInterrupt

fun is_Exception :: "exn \<Rightarrow> bool" where
  "is_Exception KeyboardInterrupt = False"
| "is_Exception _ = True"

text \<open>\<open>str(e)\<close>, the text the handlers log.\<close>

fun exn_str :: "exn \<Rightarrow> string" where
  "exn_str (OSError m) = m"
| "exn_str ZeroDivisionError = ''division by zero''"
| "exn_str EOFError = ''EOF when reading a line''"
| "exn_str KeyError = ''KeyError''"
| "exn_str (RuntimeError m) = m"
| "exn_str (ValidationError m) = m"
| "exn_str KeyboardInterrupt = []"

subsection \<open>Strings\<close>

text \<open>
  Strings are lists of 8-bit characters (Latin-1). In that range the characters
  \<open>str.strip()\<close> removes are the code points 9 to 13, 28 to 32, 133 and 160, and the
  characters \<open>\d\<close> matches are the ASCII digits.
\<close>

definition is_space :: "char \<Rightarrow> bool" where
  "is_space c = ((of_char c :: nat) \<in> {9, 10, 11, 12, 13, 28, 29, 30, 31, 32, 133, 160})"

definition strip :: "string \<Rightarrow> string" where
  "strip s = rev (dropWhile is_space (rev (dropWhile is_space s)))"

definition is_digit :: "char \<Rightarrow> bool" where
  "is_digit c = (c \<in> set ''0123456789'')"

subsection \<open>The fragment of \<open>re\<close> that \<open>validate_folder_name\<close> uses\<close>

text \<open>
  A pattern is a sequence of items. An item is tried at a position of the subject,
  given as the number of characters consumed and the rest of the subject; it fails or
  yields the next position. Without flags, \<open>^\<close> holds only at position 0, and \<open>$\<close> holds at
  the end of the subject and just before a line feed that ends the subject.
\<close>

datatype rx = Bol | Eol | Digit | Lit char | Rep nat rx

fun rx_weight :: "rx \<Rightarrow> nat" where
  "rx_weight (Rep n r) = Suc (n + rx_weight r)"
| "rx_weight _ = 0"

function rx_item :: "rx \<Rightarrow> nat \<times> string \<Rightarrow> (nat \<times> string) option" where
  "rx_item Bol (i, rest) = (if i = 0 then Some (i, rest) else None)"
| "rx_item Eol (i, rest) = (if rest = [] \<or> rest = [CHR 0x0A] then Some (i, rest) else None)"
| "rx_item Digit (i, rest) =
     (case rest of [] \<Rightarrow> None | c # cs \<Rightarrow> if is_digit c then Some (Suc i, cs) else None)"
| "rx_item (Lit a) (i, rest) =
     (case rest of [] \<Rightarrow> None | c # cs \<Rightarrow> if c = a then Some (Suc i, cs) else None)"
| "rx_item (Rep 0 r) p = Some p"
| "rx_item (Rep (Suc n) r) p =
     (case rx_item r p of None \<Rightarrow> None | Some q \<Rightarrow> rx_item (Rep n r) q)"
  by pat_completeness auto
termination
  by (relation "measure (\<lambda>(r, p). rx_weight r)") auto

fun rx_seq :: "rx list \<Rightarrow> nat \<times> string \<Rightarrow> (nat \<times> string) option" where
  "rx_seq [] p = Some p"
| "rx_seq (r # rs) p = (case rx_item r p of None \<Rightarrow> None | Some q \<Rightarrow> rx_seq rs q)"

text \<open>\<open>re.match(pattern, s)\<close> tries the pattern at position 0 only; its result is truthy
  when the pattern matches there.\<close>

definition re_match :: "rx list \<Rightarrow> string \<Rightarrow> bool" where
  "re_match pat s = (rx_seq pat (0, s) \<noteq> None)"

text \<open>\<open>pattern = r'^\d{2}-\d{2}$'\<close>\<close>

definition pattern :: "rx list" where
  "pattern = [Bol, Rep 2 Digit, Lit (CHR ''-''), Rep 2 Digit, Eol]"

definition format_message :: string where
  "format_message = ''Folder name must be in format XX-XX (e.g., 01-04)''"

definition validate_folder_name :: "string \<Rightarrow> exn + bool" where
  "validate_folder_name folder_name =
     (if \<not> re_match pattern folder_name
      then Inl (ValidationError format_message)
      else Inr True)"


section \<open>The world the program runs in\<close>

text \<open>
  A path is the list of its components; \<open>Path.name\<close> is the last one and \<open>dir / name\<close>
  appends one. A regular file has its bytes, its modification time and its permission bits.
\<close>

type_synonym path = "string list"

type_synonym bytes = "8 word list"

record file_node =
  content :: bytes
  mtime :: nat
  mode :: nat

definition path_name :: "path \<Rightarrow> string" where
  "path_name p = (if p = [] then [] else last p)"

text \<open>What the program prints, one constructor for each \<open>print\<close> of the source (colours and
  the layout of a line are left out), and the records it hands to \<open>logging\<close>.\<close>

datatype msg =
    PromptLine string
  | ErrorLine string
  | CopyStart string string
  | ProgressLine nat nat
  | CopySuccess string string path path
  | CopyError string string string
  | MenuBanner
  | MonitoringStarted string path path
  | MonitoringStopped string
  | SourceMissing "path option"
  | StartError string

datatype logrec = LogInfo string | LogError string

text \<open>\<open>FileHandler\<close>, the object bound to a watch.\<close>

record FileHandler =
  source_dir :: path
  destination_dir :: path
  processing_files :: "path set"

text \<open>
  A watchdog \<open>Observer\<close> is a thread: created, started, asked to stop, and gone once it has
  left its loop. An observer delivers callbacks while its thread lives, that is from
  \<open>start()\<close> until it has exited.
\<close>

datatype phase = Unstarted | Running | StopRequested | Dead

record Observer =
  phase :: phase
  watches :: "(path \<times> FileHandler) list"

fun alive :: "phase \<Rightarrow> bool" where
  "alive Running = True"
| "alive StopRequested = True"
| "alive _ = False"

text \<open>
  The world: the file system (regular files and directories), the lines the operator will
  type, the console, the log, and the observers allocated so far (a reference to an
  observer is its index). \<open>timeline\<close> is a history kept for the proofs: every call that
  creates an observer or changes the phase of one appends the phases of all observers.
\<close>

record world =
  files :: "path \<rightharpoonup> file_node"
  dirs :: "path set"
  stdin :: "string list"
  console :: "msg list"
  logrecs :: "logrec list"
  observers :: "Observer list"
  timeline :: "phase list list"

text \<open>
  The environment of one run of an operation: which system calls fail and how (a read or a
  write is named by the file position it starts at), what other processes do to the files
  while the handler sleeps, the formatted wall-clock time, and the modification time and
  the permission bits a file written now gets.
\<close>

datatype io_op =
    OpMkdir | OpStat1 | OpStat2 | OpGetsize | OpOpenSrc | OpOpenDst
  | OpRead nat | OpWrite nat | OpCopystat | OpSchedule | OpStart

record env =
  fault :: "io_op \<Rightarrow> exn option"
  grace_writer :: "(path \<rightharpoonup> file_node) \<Rightarrow> (path \<rightharpoonup> file_node)"
  check_writer :: "(path \<rightharpoonup> file_node) \<Rightarrow> (path \<rightharpoonup> file_node)"
  now :: string
  clock :: nat
  umask_mode :: nat

subsection \<open>System calls\<close>

definition print_msg :: "msg \<Rightarrow> world \<Rightarrow> world" where
  "print_msg x w = w\<lparr>console := console w @ [x]\<rparr>"

definition logging_info :: "string \<Rightarrow> world \<Rightarrow> world" where
  "logging_info x w = w\<lparr>logrecs := logrecs w @ [LogInfo x]\<rparr>"

definition logging_error :: "string \<Rightarrow> world \<Rightarrow> world" where
  "logging_error x w = w\<lparr>logrecs := logrecs w @ [LogError x]\<rparr>"

text \<open>\<open>time.sleep(1)\<close> and \<open>time.sleep(0.5)\<close>: the handler does nothing, other processes
  write.\<close>

definition sleep_grace :: "env \<Rightarrow> world \<Rightarrow> world" where
  "sleep_grace env w = w\<lparr>files := grace_writer env (files w)\<rparr>"

definition sleep_check :: "env \<Rightarrow> world \<Rightarrow> world" where
  "sleep_check env w = w\<lparr>files := check_writer env (files w)\<rparr>"

definition path_exists :: "world \<Rightarrow> path \<Rightarrow> bool" where
  "path_exists w p = (p \<in> dirs w \<or> files w p \<noteq> None)"

definition ancestors :: "path \<Rightarrow> path list" where
  "ancestors p = map (\<lambda>n. take n p) [0..<Suc (length p)]"

text \<open>\<open>d.mkdir(parents=True, exist_ok=True)\<close>\<close>

definition mkdir_parents :: "env \<Rightarrow> path \<Rightarrow> world \<Rightarrow> exn + world" where
  "mkdir_parents env d w =
     (case fault env OpMkdir of
        Some e \<Rightarrow> Inl e
      | None \<Rightarrow>
          if list_ex (\<lambda>q. files w q \<noteq> None) (ancestors d) then Inl (OSError ''File exists'')
          else Inr (w\<lparr>dirs := dirs w \<union> set (ancestors d)\<rparr>))"

text \<open>\<open>p.stat().st_size\<close> and \<open>os.path.getsize(p)\<close> of a regular file.\<close>

definition stat_size :: "env \<Rightarrow> io_op \<Rightarrow> path \<Rightarrow> world \<Rightarrow> exn + nat" where
  "stat_size env opn p w =
     (case fault env opn of
        Some e \<Rightarrow> Inl e
      | None \<Rightarrow>
          (case files w p of
             None \<Rightarrow> Inl (OSError ''No such file or directory'')
           | Some f \<Rightarrow> Inr (length (content f))))"

text \<open>\<open>open(src, 'rb')\<close>\<close>

definition open_rb :: "env \<Rightarrow> path \<Rightarrow> world \<Rightarrow> exn + unit" where
  "open_rb env p w =
     (case fault env OpOpenSrc of
        Some e \<Rightarrow> Inl e
      | None \<Rightarrow> if files w p = None then Inl (OSError ''No such file or directory'') else Inr ())"

text \<open>\<open>open(dst, 'wb')\<close> creates the file or truncates it.\<close>

definition open_wb :: "env \<Rightarrow> path \<Rightarrow> world \<Rightarrow> exn + world" where
  "open_wb env p w =
     (case fault env OpOpenDst of
        Some e \<Rightarrow> Inl e
      | None \<Rightarrow>
          if p \<in> dirs w then Inl (OSError ''Is a directory'')
          else if butlast p \<notin> dirs w then Inl (OSError ''No such file or directory'')
          else Inr (w\<lparr>files := (files w)(p \<mapsto>
                 (case files w p of
                    None \<Rightarrow> \<lparr>content = [], mtime = clock env, mode = umask_mode env\<rparr>
                  | Some f \<Rightarrow> f\<lparr>content := [], mtime := clock env\<rparr>))\<rparr>))"

text \<open>\<open>fsrc.read(chunk_size)\<close> at position \<open>pos\<close>: at most \<open>chunk_size\<close> bytes, none at the end
  of the file.\<close>

definition fsrc_read :: "env \<Rightarrow> path \<Rightarrow> nat \<Rightarrow> nat \<Rightarrow> world \<Rightarrow> exn + bytes" where
  "fsrc_read env src chunk_size pos w =
     (case fault env (OpRead pos) of
        Some e \<Rightarrow> Inl e
      | None \<Rightarrow>
          (case files w src of
             None \<Rightarrow> Inl (OSError ''No such file or directory'')
           | Some f \<Rightarrow> Inr (take chunk_size (drop pos (content f)))))"

definition write_at :: "nat \<Rightarrow> bytes \<Rightarrow> bytes \<Rightarrow> bytes" where
  "write_at pos chunk c =
     take pos c @ replicate (pos - length c) 0 @ chunk @ drop (pos + length chunk) c"

text \<open>\<open>fdst.write(chunk)\<close> at position \<open>pos\<close>.\<close>

definition fdst_write :: "env \<Rightarrow> path \<Rightarrow> nat \<Rightarrow> bytes \<Rightarrow> world \<Rightarrow> exn + world" where
  "fdst_write env dst pos chunk w =
     (case fault env (OpWrite pos) of
        Some e \<Rightarrow> Inl e
      | None \<Rightarrow>
          (case files w dst of
             None \<Rightarrow> Inl (OSError ''No such file or directory'')
           | Some f \<Rightarrow>
               Inr (w\<lparr>files := (files w)(dst \<mapsto>
                      f\<lparr>content := write_at pos chunk (content f), mtime := clock env\<rparr>)\<rparr>)))"

text \<open>\<open>shutil.copystat(src, dst)\<close>: modification time and permission bits.\<close>

definition copystat :: "env \<Rightarrow> path \<Rightarrow> path \<Rightarrow> world \<Rightarrow> exn + world" where
  "copystat env src dst w =
     (case fault env OpCopystat of
        Some e \<Rightarrow> Inl e
      | None \<Rightarrow>
          (case (files w src, files w dst) of
             (Some s, Some d) \<Rightarrow>
               Inr (w\<lparr>files := (files w)(dst \<mapsto> d\<lparr>mtime := mtime s, mode := mode s\<rparr>)\<rparr>)
           | _ \<Rightarrow> Inl (OSError ''No such file or directory'')))"


section \<open>\<open>file_handler.py\<close>\<close>

subsection \<open>\<open>ProgressBar\<close> and \<open>copy_with_progress\<close>\<close>

text \<open>
  \<open>ProgressBar.update\<close> divides by \<open>total_size\<close> before it prints, so it raises
  \<open>ZeroDivisionError\<close> when \<open>total_size\<close> is 0. The line it prints otherwise is a rendering
  of \<open>current_size\<close> and \<open>total_size\<close> in floating point; the model keeps the two numbers.
\<close>

record ProgressBar =
  total_size :: nat
  width :: nat

definition ProgressBar_init :: "nat \<Rightarrow> ProgressBar" where
  "ProgressBar_init size0 = \<lparr>total_size = size0, width = 50\<rparr>"

definition update :: "ProgressBar \<Rightarrow> nat \<Rightarrow> world \<Rightarrow> exn + world" where
  "update progress current_size w =
     (if total_size progress = 0 then Inl ZeroDivisionError
      else Inr (print_msg (ProgressLine current_size (total_size progress)) w))"

definition size_of :: "world \<Rightarrow> path \<Rightarrow> nat" where
  "size_of w p = (case files w p of None \<Rightarrow> 0 | Some f \<Rightarrow> length (content f))"

text \<open>
  The \<open>while True\<close> loop of \<open>copy_with_progress\<close>. Both file objects start at position 0
  and move by \<open>len(chunk)\<close> in every round, so \<open>copied_size\<close> is the position of both.
  The result is the exception that left the loop, if any, and the world then.
\<close>

function copy_loop ::
  "env \<Rightarrow> path \<Rightarrow> path \<Rightarrow> nat \<Rightarrow> ProgressBar \<Rightarrow> nat \<Rightarrow> world \<Rightarrow> exn option \<times> world"
where
  "copy_loop env src dst chunk_size progress copied_size w =
     (case fsrc_read env src chunk_size copied_size w of
        Inl e \<Rightarrow> (Some e, w)
      | Inr chunk \<Rightarrow>
          if chunk = [] then (None, w)
          else
            (case fdst_write env dst copied_size chunk w of
               Inl e \<Rightarrow> (Some e, w)
             | Inr w1 \<Rightarrow>
                 (case update progress (copied_size + length chunk) w1 of
                    Inl e \<Rightarrow> (Some e, w1)
                  | Inr w2 \<Rightarrow>
                      copy_loop env src dst chunk_size progress
                        (copied_size + length chunk) w2)))"
  by pat_completeness auto
termination
proof (relation "measure (\<lambda>(env, src, dst, chunk_size, progress, copied_size, w).
                    size_of w src - copied_size)", goal_cases)
  case 1
  show ?case by simp
next
  case (2 env src dst chunk_size progress copied_size w chunk w1 w2)
  from 2(1,2) obtain f where f: "files w src = Some f"
      and chunk: "chunk = take chunk_size (drop copied_size (content f))"
    by (auto simp: fsrc_read_def split: option.splits)
  from chunk 2(2) have lt: "copied_size < length (content f)"
    by (cases "copied_size < length (content f)") auto
  have "length chunk = min chunk_size (length (content f) - copied_size)"
    by (simp add: chunk min.commute)
  with lt have len: "copied_size + length chunk \<le> length (content f)"
    by arith
  from 2(3) obtain g where g: "files w dst = Some g"
      and w1: "w1 = w\<lparr>files := (files w)(dst \<mapsto>
                      g\<lparr>content := write_at copied_size chunk (content g),
                        mtime := clock env\<rparr>)\<rparr>"
    by (auto simp: fdst_write_def split: option.splits)
  have same: "length (write_at copied_size chunk (content f)) = length (content f)"
    using lt len by (simp add: write_at_def)
  have "size_of w1 src = size_of w src"
    using f g w1 same by (cases "src = dst") (auto simp: size_of_def)
  moreover from 2(4) have "size_of w2 src = size_of w1 src"
    by (auto simp: update_def print_msg_def size_of_def split: if_splits)
  moreover have "size_of w src = length (content f)"
    using f by (simp add: size_of_def)
  ultimately show ?case
    using lt 2(2) by (cases chunk) auto
qed

declare copy_loop.simps [simp del]

definition default_chunk_size :: nat where
  "default_chunk_size = 8192"

text \<open>The \<open>with\<close> block: both files are opened, the loop runs, and the files are closed
  however the block is left.\<close>

definition stream_copy ::
  "env \<Rightarrow> path \<Rightarrow> path \<Rightarrow> nat \<Rightarrow> ProgressBar \<Rightarrow> world \<Rightarrow> exn option \<times> world"
where
  "stream_copy env src dst chunk_size progress w =
     (case open_rb env src w of
        Inl e \<Rightarrow> (Some e, w)
      | Inr _ \<Rightarrow>
          (case open_wb env dst w of
             Inl e \<Rightarrow> (Some e, w)
           | Inr w1 \<Rightarrow> copy_loop env src dst chunk_size progress 0 w1))"

definition copy_with_progress ::
  "env \<Rightarrow> path \<Rightarrow> path \<Rightarrow> nat \<Rightarrow> world \<Rightarrow> exn option \<times> world"
where
  "copy_with_progress env src dst chunk_size w =
     (case stat_size env OpGetsize src w of
        Inl e \<Rightarrow> (Some e, w)
      | Inr size0 \<Rightarrow>
          (case stream_copy env src dst chunk_size (ProgressBar_init size0) w of
             (Some e, w2) \<Rightarrow> (Some e, w2)
           | (None, w2) \<Rightarrow>
               (case copystat env src dst w2 of
                  Inl e \<Rightarrow> (Some e, w2)
                | Inr w3 \<Rightarrow> (None, w3))))"

subsection \<open>\<open>FileHandler\<close>\<close>

definition log_success :: "string \<Rightarrow> string \<Rightarrow> path \<Rightarrow> path \<Rightarrow> world \<Rightarrow> world" where
  "log_success time_str file_name source dest w =
     print_msg (CopySuccess time_str file_name source dest) w"

definition log_error :: "string \<Rightarrow> string \<Rightarrow> string \<Rightarrow> world \<Rightarrow> world" where
  "log_error time_str file_name error w = print_msg (CopyError time_str file_name error) w"

text \<open>
  How \<open>_copy_file\<close> returns: from the \<open>return\<close> of the size check, from the end of the
  \<open>try\<close> block, or from the \<open>except Exception\<close> clause, which has logged the exception.
\<close>

datatype copy_exit = Unstable | Copied | Failed exn

text \<open>The \<open>try\<close> block of \<open>_copy_file\<close>.\<close>

definition copy_file_try ::
  "env \<Rightarrow> FileHandler \<Rightarrow> path \<Rightarrow> world \<Rightarrow> (exn + copy_exit) \<times> world"
where
  "copy_file_try env self source_path w =
     (let file_name = path_name source_path;
          destination_path = destination_dir self @ [file_name];
          current_time = now env;
          w1 = sleep_grace env w
      in case mkdir_parents env (destination_dir self) w1 of
           Inl e \<Rightarrow> (Inl e, w1)
         | Inr w2 \<Rightarrow>
             (case stat_size env OpStat1 source_path w2 of
                Inl e \<Rightarrow> (Inl e, w2)
              | Inr initial_size \<Rightarrow>
                  (let w3 = sleep_check env w2
                   in case stat_size env OpStat2 source_path w3 of
                        Inl e \<Rightarrow> (Inl e, w3)
                      | Inr size2 \<Rightarrow>
                          if initial_size \<noteq> size2 then (Inr Unstable, w3)
                          else
                            (let w4 = print_msg (CopyStart current_time file_name) w3
                             in case copy_with_progress env source_path destination_path
                                       default_chunk_size w4 of
                                  (Some e, w5) \<Rightarrow> (Inl e, w5)
                                | (None, w5) \<Rightarrow>
                                    (Inr Copied,
                                     logging_info (''Successfully copied '' @ file_name)
                                       (log_success current_time file_name source_path
                                          destination_path w5))))))"

text \<open>\<open>_copy_file\<close>: an exception of the \<open>try\<close> block that is an \<open>Exception\<close> is logged and
  the method returns; any other exception propagates.\<close>

definition copy_file ::
  "env \<Rightarrow> FileHandler \<Rightarrow> path \<Rightarrow> world \<Rightarrow> (exn + copy_exit) \<times> world"
where
  "copy_file env self source_path w =
     (case copy_file_try env self source_path w of
        (Inr x, w') \<Rightarrow> (Inr x, w')
      | (Inl e, w') \<Rightarrow>
          if is_Exception e
          then (Inr (Failed e),
                logging_error (''Error copying '' @ path_name source_path @ '': '' @ exn_str e)
                  (log_error (now env) (path_name source_path) (exn_str e) w'))
          else (Inl e, w'))"

text \<open>\<open>set.remove\<close> raises \<open>KeyError\<close> when the element is not in the set.\<close>

definition set_remove :: "'a \<Rightarrow> 'a set \<Rightarrow> exn + 'a set" where
  "set_remove x S = (if x \<in> S then Inr (S - {x}) else Inl KeyError)"

text \<open>
  How a callback of the handler ends: the event was not for this handler to act on
  (\<open>Ignored\<close>), the path was already being processed (\<open>Skipped\<close>), the handling ran to its
  end (\<open>Handled\<close>), or an exception left the callback (\<open>Raised\<close>).
\<close>

datatype outcome = Ignored | Skipped | Handled | Raised exn

text \<open>\<open>_handle_file_event\<close>: the \<open>finally\<close> clause runs however \<open>_copy_file\<close> ends; an
  exception of the \<open>finally\<close> clause replaces the one in flight.\<close>

definition handle_file_event ::
  "env \<Rightarrow> path \<Rightarrow> string \<Rightarrow> FileHandler \<times> world \<Rightarrow> outcome \<times> FileHandler \<times> world"
where
  "handle_file_event env source_path event_type s =
     (let self = fst s; w = snd s
      in if source_path \<in> processing_files self then (Skipped, self, w)
         else
           (let self1 = self\<lparr>processing_files := insert source_path (processing_files self)\<rparr>;
                r = copy_file env self1 source_path w
            in case set_remove source_path (processing_files self1) of
                 Inl e \<Rightarrow> (Raised e, self1, snd r)
               | Inr S \<Rightarrow>
                   (case fst r of
                      Inl e \<Rightarrow> (Raised e, self1\<lparr>processing_files := S\<rparr>, snd r)
                    | Inr _ \<Rightarrow> (Handled, self1\<lparr>processing_files := S\<rparr>, snd r))))"

text \<open>
  A file-system event of watchdog, and \<open>FileSystemEventHandler.dispatch\<close>, which calls the
  method named after the kind of the event. \<open>FileHandler\<close> overrides \<open>on_modified\<close> only;
  the methods it inherits do nothing.
\<close>

datatype event_kind = EvCreated | EvModified | EvDeleted | EvMoved

record event =
  src_path :: path
  is_directory :: bool
  event_type :: event_kind

definition on_modified ::
  "env \<Rightarrow> event \<Rightarrow> FileHandler \<times> world \<Rightarrow> outcome \<times> FileHandler \<times> world"
where
  "on_modified env ev s =
     (if \<not> is_directory ev then handle_file_event env (src_path ev) ''modified'' s
      else (Ignored, fst s, snd s))"

definition dispatch ::
  "env \<Rightarrow> event \<Rightarrow> FileHandler \<times> world \<Rightarrow> outcome \<times> FileHandler \<times> world"
where
  "dispatch env ev s =
     (case event_type ev of
        EvModified \<Rightarrow> on_modified env ev s
      | _ \<Rightarrow> (Ignored, fst s, snd s))"


section \<open>\<open>utils.py\<close>: asking for the folder name\<close>

text \<open>\<open>input(prompt)\<close> prints the prompt and takes the next line the operator types; at the
  end of the input it raises \<open>EOFError\<close>.\<close>

definition input_line :: "string \<Rightarrow> world \<Rightarrow> (exn + string) \<times> world" where
  "input_line prompt w =
     (let w1 = print_msg (PromptLine prompt) w
      in case stdin w1 of
           [] \<Rightarrow> (Inl EOFError, w1)
         | l # ls \<Rightarrow> (Inr l, w1\<lparr>stdin := ls\<rparr>))"

text \<open>\<open>get_valid_folder_name\<close>: the \<open>while True\<close> loop ends with the first line that
  validates, or with the exception of \<open>input\<close>.\<close>

definition folder_prompt :: string where
  "folder_prompt = ''Enter the folder name (e.g., 01-04): ''"

function get_valid_folder_name :: "world \<Rightarrow> (exn + string) \<times> world" where
  "get_valid_folder_name w =
     (case input_line folder_prompt w of
        (Inl e, w1) \<Rightarrow> (Inl e, w1)
      | (Inr l, w1) \<Rightarrow>
          (case validate_folder_name (strip l) of
             Inr _ \<Rightarrow> (Inr (strip l), w1)
           | Inl e \<Rightarrow>
               (case e of
                  ValidationError m \<Rightarrow> get_valid_folder_name (print_msg (ErrorLine m) w1)
                | _ \<Rightarrow> (Inl e, w1))))"
  by pat_completeness auto
termination
  by (relation "measure (\<lambda>w. length (stdin w))")
     (auto simp: input_line_def print_msg_def Let_def split: list.splits)

declare get_valid_folder_name.simps [simp del]

section \<open>\<open>file_monitor.py\<close>\<close>

text \<open>
  A call of the monitor returns, raises, or never returns: \<open>Thread.join\<close> waits for the
  thread to exit, which a running observer does only after \<open>stop()\<close>.
\<close>

datatype 'a result = Return 'a | Raise exn | Blocked

subsection \<open>The observer\<close>

definition snapshot :: "world \<Rightarrow> world" where
  "snapshot w = w\<lparr>timeline := timeline w @ [map phase (observers w)]\<rparr>"

definition phase_of :: "world \<Rightarrow> nat \<Rightarrow> phase option" where
  "phase_of w i = (if i < length (observers w) then Some (phase (observers w ! i)) else None)"

definition set_phase :: "nat \<Rightarrow> phase \<Rightarrow> world \<Rightarrow> world" where
  "set_phase i ph w =
     snapshot (w\<lparr>observers := (observers w)[i := (observers w ! i)\<lparr>phase := ph\<rparr>]\<rparr>)"

text \<open>\<open>Observer()\<close>\<close>

definition Observer_new :: "world \<Rightarrow> nat \<times> world" where
  "Observer_new w =
     (length (observers w),
      snapshot (w\<lparr>observers := observers w @ [\<lparr>phase = Unstarted, watches = []\<rparr>]\<rparr>))"

text \<open>\<open>observer.schedule(event_handler, path, recursive=False)\<close>\<close>

definition Observer_schedule ::
  "env \<Rightarrow> nat \<Rightarrow> FileHandler \<Rightarrow> path \<Rightarrow> world \<Rightarrow> exn + world"
where
  "Observer_schedule env i event_handler p w =
     (case fault env OpSchedule of
        Some e \<Rightarrow> Inl e
      | None \<Rightarrow>
          Inr (w\<lparr>observers := (observers w)
                 [i := (observers w ! i)\<lparr>watches := watches (observers w ! i) @
                                                     [(p, event_handler)]\<rparr>]\<rparr>))"

text \<open>\<open>observer.start()\<close>\<close>

definition Observer_start :: "env \<Rightarrow> nat \<Rightarrow> world \<Rightarrow> exn + world" where
  "Observer_start env i w =
     (case fault env OpStart of
        Some e \<Rightarrow> Inl e
      | None \<Rightarrow>
          (case phase_of w i of
             Some Unstarted \<Rightarrow> Inr (set_phase i Running w)
           | _ \<Rightarrow> Inl (RuntimeError ''threads can only be started once'')))"

text \<open>\<open>observer.stop()\<close> asks the thread to leave its loop.\<close>

definition Observer_stop :: "nat \<Rightarrow> world \<Rightarrow> world" where
  "Observer_stop i w =
     (case phase_of w i of
        Some Running \<Rightarrow> set_phase i StopRequested w
      | _ \<Rightarrow> w)"

text \<open>\<open>observer.join()\<close> returns once the thread has exited.\<close>

definition Observer_join :: "nat \<Rightarrow> world \<Rightarrow> world result" where
  "Observer_join i w =
     (case phase_of w i of
        Some Unstarted \<Rightarrow> Raise (RuntimeError ''cannot join thread before it is started'')
      | Some Running \<Rightarrow> Blocked
      | Some StopRequested \<Rightarrow> Return (set_phase i Dead w)
      | _ \<Rightarrow> Return w)"

subsection \<open>\<open>FileMonitor\<close>\<close>

text \<open>The field \<open>destination_dir\<close> of the monitor is \<open>monitor_destination_dir\<close> here, apart
  from the field of that name of \<open>FileHandler\<close>.\<close>

record FileMonitor =
  base_source_dir :: path
  monitor_destination_dir :: path
  observer :: "nat option"
  current_source_dir :: "path option"
  running :: bool
  menu_active :: bool

definition FileMonitor_init :: "path \<Rightarrow> path \<Rightarrow> FileMonitor" where
  "FileMonitor_init base dest =
     \<lparr>base_source_dir = base, monitor_destination_dir = dest, observer = None,
      current_source_dir = None, running = True, menu_active = False\<rparr>"

definition path_str :: "path \<Rightarrow> string" where
  "path_str p = foldr (\<lambda>c acc. ''/'' @ c @ acc) p []"

text \<open>The \<open>try\<close> block of \<open>start_monitoring\<close>, for the source directory \<open>src\<close>.\<close>

definition start_monitoring_try ::
  "env \<Rightarrow> path \<Rightarrow> FileMonitor \<times> world \<Rightarrow> (exn + unit) \<times> FileMonitor \<times> world"
where
  "start_monitoring_try env src s =
     (let self = fst s; w = snd s;
          event_handler = \<lparr>source_dir = src,
                           destination_dir = monitor_destination_dir self,
                           processing_files = {}\<rparr>;
          ob = fst (Observer_new w); w1 = snd (Observer_new w);
          self1 = self\<lparr>observer := Some ob\<rparr>
      in case Observer_schedule env ob event_handler src w1 of
           Inl e \<Rightarrow> (Inl e, self1, w1)
         | Inr w2 \<Rightarrow>
             (case Observer_start env ob w2 of
                Inl e \<Rightarrow> (Inl e, self1, w2)
              | Inr w3 \<Rightarrow>
                  (Inr (), self1,
                   logging_info (''Started monitoring directory: '' @ path_str src)
                     (print_msg (MonitoringStarted (now env) src
                                   (monitor_destination_dir self)) w3))))"

definition start_monitoring ::
  "env \<Rightarrow> FileMonitor \<times> world \<Rightarrow> unit result \<times> FileMonitor \<times> world"
where
  "start_monitoring env s =
     (let self = fst s; w = snd s
      in case current_source_dir self of
           None \<Rightarrow> (Return (), self, print_msg (SourceMissing None) w)
         | Some src \<Rightarrow>
             if \<not> path_exists w src
             then (Return (), self, print_msg (SourceMissing (Some src)) w)
             else
               (case start_monitoring_try env src s of
                  (Inr _, self1, w1) \<Rightarrow> (Return (), self1, w1)
                | (Inl e, self1, w1) \<Rightarrow>
                    if is_Exception e
                    then (Return (), self1,
                          print_msg (StartError (exn_str e))
                            (logging_error (''Error starting monitoring: '' @ exn_str e) w1))
                    else (Raise e, self1, w1)))"

definition stop ::
  "env \<Rightarrow> FileMonitor \<times> world \<Rightarrow> unit result \<times> FileMonitor \<times> world"
where
  "stop env s =
     (let self = (fst s)\<lparr>running := False\<rparr>; w = snd s
      in case observer self of
           None \<Rightarrow> (Return (), self, w)
         | Some ob \<Rightarrow>
             (let w1 = Observer_stop ob w;
                  w2 = print_msg (MonitoringStopped (now env)) w1
              in case Observer_join ob w2 of
                   Return w3 \<Rightarrow> (Return (), self, logging_info ''Monitoring stopped'' w3)
                 | Raise e \<Rightarrow> (Raise e, self, w2)
                 | Blocked \<Rightarrow> (Blocked, self, w2)))"

text \<open>The first statement of \<open>change_source_folder\<close>: stop the current observer, if any,
  and wait for it.\<close>

definition stop_current :: "FileMonitor \<Rightarrow> world \<Rightarrow> unit result \<times> world" where
  "stop_current self w =
     (case observer self of
        None \<Rightarrow> (Return (), w)
      | Some ob \<Rightarrow>
          (let w1 = Observer_stop ob w
           in case Observer_join ob w1 of
                Return w2 \<Rightarrow> (Return (), w2)
              | Raise e \<Rightarrow> (Raise e, w1)
              | Blocked \<Rightarrow> (Blocked, w1)))"

definition change_source_folder ::
  "env \<Rightarrow> FileMonitor \<times> world \<Rightarrow> unit result \<times> FileMonitor \<times> world"
where
  "change_source_folder env s =
     (let self = fst s; w = snd s
      in case stop_current self w of
           (Raise e, w1) \<Rightarrow> (Raise e, self, w1)
         | (Blocked, w1) \<Rightarrow> (Blocked, self, w1)
         | (Return _, w1) \<Rightarrow>
             (case get_valid_folder_name w1 of
                (Inl e, w2) \<Rightarrow> (Raise e, self, w2)
              | (Inr folder_name, w2) \<Rightarrow>
                  start_monitoring env
                    (self\<lparr>current_source_dir := Some (base_source_dir self @ [folder_name])\<rparr>,
                     w2)))"

text \<open>How \<open>show_menu\<close> returns: at once because a menu is open, or after the interaction.\<close>

datatype menu_exit = MenuBusy | MenuDone

text \<open>The \<open>try\<close> block of \<open>show_menu\<close>.\<close>

definition show_menu_try ::
  "env \<Rightarrow> FileMonitor \<times> world \<Rightarrow> unit result \<times> FileMonitor \<times> world"
where
  "show_menu_try env s =
     (let self = fst s; w1 = print_msg MenuBanner (snd s)
      in case input_line ''Enter your choice (1 or 2): '' w1 of
           (Inl e, w2) \<Rightarrow> (Raise e, self, w2)
         | (Inr l, w2) \<Rightarrow>
             (let choice = strip l
              in if choice = ''1'' then change_source_folder env (self, w2)
                 else if choice = ''2'' then stop env (self, w2)
                 else (Return (), self, w2)))"

text \<open>\<open>show_menu\<close>: the \<open>finally\<close> clause runs however the \<open>try\<close> block is left; it does
  not run when the block never returns.\<close>

definition show_menu ::
  "env \<Rightarrow> FileMonitor \<times> world \<Rightarrow> menu_exit result \<times> FileMonitor \<times> world"
where
  "show_menu env s =
     (if menu_active (fst s) then (Return MenuBusy, fst s, snd s)
      else
        (case show_menu_try env ((fst s)\<lparr>menu_active := True\<rparr>, snd s) of
           (Return _, self, w) \<Rightarrow> (Return MenuDone, self\<lparr>menu_active := False\<rparr>, w)
         | (Raise e, self, w) \<Rightarrow> (Raise e, self\<lparr>menu_active := False\<rparr>, w)
         | (Blocked, self, w) \<Rightarrow> (Blocked, self, w)))"

subsection \<open>Sessions that are active\<close>

text \<open>
  The number of observers whose thread lives, in a list of phases; and the condition the
  monitor keeps: its reference, if any, is to an allocated observer, and no observer but
  that one is alive.
\<close>

definition alive_count :: "phase list \<Rightarrow> nat" where
  "alive_count ps = length (filter alive ps)"

definition monitor_ok :: "FileMonitor \<Rightarrow> world \<Rightarrow> bool" where
  "monitor_ok self w =
     ((case observer self of None \<Rightarrow> True | Some ob \<Rightarrow> ob < length (observers w)) \<and>
      list_all (\<lambda>j. alive (phase (observers w ! j)) \<longrightarrow> observer self = Some j)
        [0..<length (observers w)])"

section \<open>Concrete worlds\<close>


definition quiet_env :: env where
  "quiet_env =
     \<lparr>fault = (\<lambda>_. None), grace_writer = (\<lambda>fs. fs), check_writer = (\<lambda>fs. fs),
      now = ''10:15:00 AM'', clock = 7, umask_mode = 420\<rparr>"

text \<open>A watched folder with one file in it, and the destination folder.\<close>

definition shot :: path where
  "shot = [''output'', ''01-04'', ''shot.png'']"

definition inbox :: path where
  "inbox = [''inbox'']"

definition disk :: "bytes \<Rightarrow> world" where
  "disk c =
     \<lparr>files = [shot \<mapsto> \<lparr>content = c, mtime = 3, mode = 384\<rparr>],
      dirs = {[], [''output''], [''output'', ''01-04''], [''inbox'']},
      stdin = [], console = [], logrecs = [], observers = [], timeline = []\<rparr>"

definition handler0 :: FileHandler where
  "handler0 =
     \<lparr>source_dir = [''output'', ''01-04''], destination_dir = inbox, processing_files = {}\<rparr>"

text \<open>Three more environments: another process is still writing the file during the size
  check; the destination volume takes no bytes; the first \<open>stat\<close> is interrupted.\<close>

definition growing_env :: env where
  "growing_env =
     quiet_env\<lparr>check_writer :=
                 (\<lambda>fs. fs(shot \<mapsto> \<lparr>content = [1, 2, 3, 4], mtime = 5, mode = 384\<rparr>))\<rparr>"

definition full_disk_env :: env where
  "full_disk_env =
     quiet_env\<lparr>fault := (\<lambda>opn. if opn = OpWrite 0
                                then Some (OSError ''No space left on device'') else None)\<rparr>"


text \<open>A monitor that watches \<open>output/01-04\<close> with observer 0, and the world it is in when
  the operator types the given lines; the folder \<open>output/02-05\<close> exists as well.\<close>

definition monitor0 :: FileMonitor where
  "monitor0 =
     (FileMonitor_init [''output''] inbox)
       \<lparr>observer := Some 0, current_source_dir := Some [''output'', ''01-04'']\<rparr>"

definition watching :: "string list \<Rightarrow> world" where
  "watching ls =
     \<lparr>files = Map.empty,
      dirs = {[], [''output''], [''output'', ''01-04''], [''output'', ''02-05''], [''inbox'']},
      stdin = ls, console = [], logrecs = [],
      observers = [\<lparr>phase = Running, watches = [([''output'', ''01-04''], handler0)]\<rparr>],
      timeline = []\<rparr>"

section \<open>Folder-name validation and the prompt loop\<close>

lemma rx_item_Rep2:
  "rx_item (Rep 2 r) p =
     (case rx_item r p of None \<Rightarrow> None | Some q \<Rightarrow> rx_item r q)"
  by (simp add: numeral_2_eq_2 split: option.splits)


lemma validate_folder_name_cases:
  "validate_folder_name s = Inr True \<or>
   validate_folder_name s = Inl (ValidationError format_message)"
  by (simp add: validate_folder_name_def)



lemma gvfn_eof:
  "stdin w = [] \<Longrightarrow>
   get_valid_folder_name w = (Inl EOFError, print_msg (PromptLine folder_prompt) w)"
  by (subst get_valid_folder_name.simps) (simp add: input_line_def print_msg_def Let_def)

lemma gvfn_good:
  "stdin w = l # ls \<Longrightarrow> validate_folder_name (strip l) = Inr True \<Longrightarrow>
   get_valid_folder_name w =
     (Inr (strip l), (print_msg (PromptLine folder_prompt) w)\<lparr>stdin := ls\<rparr>)"
  by (subst get_valid_folder_name.simps) (simp add: input_line_def print_msg_def Let_def)

lemma gvfn_bad:
  "stdin w = l # ls \<Longrightarrow> validate_folder_name (strip l) \<noteq> Inr True \<Longrightarrow>
   get_valid_folder_name w =
     get_valid_folder_name
       (print_msg (ErrorLine format_message)
          ((print_msg (PromptLine folder_prompt) w)\<lparr>stdin := ls\<rparr>))"
  using validate_folder_name_cases [of "strip l"]
  by (subst get_valid_folder_name.simps) (auto simp: input_line_def print_msg_def Let_def)


lemma get_valid_folder_name_eof:
  "\<forall>l\<in>set ls. validate_folder_name (strip l) \<noteq> Inr True \<Longrightarrow> stdin w = ls \<Longrightarrow>
   fst (get_valid_folder_name w) = Inl EOFError"
proof (induction ls arbitrary: w)
  case Nil
  then show ?case by (simp add: gvfn_eof)
next
  case (Cons l ls)
  let ?w' = "print_msg (ErrorLine format_message)
    ((print_msg (PromptLine folder_prompt) w)\<lparr>stdin := ls\<rparr>)"
  have step: "get_valid_folder_name w = get_valid_folder_name ?w'"
    using Cons.prems by (intro gvfn_bad) auto
  have "stdin ?w' = ls"
    by (simp add: print_msg_def)
  from Cons.IH [OF _ this] Cons.prems(1)
  show ?case
    unfolding step by simp
qed

lemma get_valid_folder_name_valid:
  "stdin w = ls \<Longrightarrow> fst (get_valid_folder_name w) = Inr n \<Longrightarrow>
   validate_folder_name n = Inr True"
proof (induction ls arbitrary: w)
  case Nil
  then show ?case by (simp add: gvfn_eof)
next
  case (Cons l ls)
  show ?case
  proof (cases "validate_folder_name (strip l) = Inr True")
    case True
    with Cons.prems show ?thesis
      by (simp add: gvfn_good)
  next
    case False
    let ?w' = "print_msg (ErrorLine format_message)
      ((print_msg (PromptLine folder_prompt) w)\<lparr>stdin := ls\<rparr>)"
    have step: "get_valid_folder_name w = get_valid_folder_name ?w'"
      using Cons.prems(1) False by (intro gvfn_bad) auto
    have "stdin ?w' = ls"
      by (simp add: print_msg_def)
    from Cons.IH [OF this] Cons.prems(2) step
    show ?thesis by simp
  qed
qed





section \<open>\<open>copy_with_progress\<close>: chunks, progress and metadata\<close>

lemma write_at_end: "length c = pos \<Longrightarrow> write_at pos chunk c = c @ chunk"
  by (simp add: write_at_def)

lemma ceil_div_step:
  assumes "0 < cs" "0 < (d::nat)"
  shows "(d + cs - 1) div cs = Suc ((d - min cs d + cs - 1) div cs)"
proof (cases "cs \<le> d")
  case True
  define e where "e = d - cs"
  have d: "d = e + cs" using True by (simp add: e_def)
  have k: "(x + cs) div cs = Suc (x div cs)" for x
    using assms(1) by (simp add: div_add_self2)
  have eq: "d + cs - 1 = (e + cs - 1) + cs"
    using assms(1) d by arith
  have "(d + cs - 1) div cs = Suc ((e + cs - 1) div cs)"
    by (simp only: eq k)
  moreover have "d - min cs d = e"
    using True by (simp add: e_def min_def)
  ultimately show ?thesis by (simp only:)
next
  case False
  define m where "m = d - 1"
  have "m < cs" "d + cs - 1 = cs + m"
    using False assms by (auto simp: m_def)
  then have "(d + cs - 1) div cs = Suc 0"
    using assms(1) by (simp add: div_add_self1)
  moreover have "d - min cs d = 0"
    using False by simp
  ultimately show ?thesis using assms(1) by simp
qed

lemma copy_loop_ok:
  assumes "copy_loop env src dst cs pr pos w = (None, w')"
    and "src \<noteq> dst" and "0 < cs"
    and "files w src = Some f" and "files w dst = Some g"
    and "length (content g) = pos" and "pos \<le> length (content f)"
  shows "\<exists>g' ps.
      w' = w\<lparr>files := (files w)(dst \<mapsto> g'),
             console := console w @ map (\<lambda>c. ProgressLine c (total_size pr)) ps\<rparr> \<and>
      content g' = content g @ drop pos (content f) \<and> mode g' = mode g \<and>
      length ps = (length (content f) - pos + cs - 1) div cs \<and>
      (\<forall>i<length ps. ps ! i = min (pos + (i + 1) * cs) (length (content f)))"
  using assms
proof (induction env src dst cs pr pos w arbitrary: g rule: copy_loop.induct)
  case (1 env src dst cs pr pos w)
  let ?n = "length (content f)"
  let ?chunk = "take cs (drop pos (content f))"
  let ?t = "total_size pr"
  from "1.prems"(1) have nofault: "fault env (OpRead pos) = None"
    by (subst (asm) copy_loop.simps) (auto simp: fsrc_read_def split: option.splits)
  have rd: "fsrc_read env src cs pos w = Inr ?chunk"
    using nofault "1.prems"(4) by (simp add: fsrc_read_def)
  show ?case
  proof (cases "?chunk = []")
    case True
    then have pos: "pos = ?n"
      using "1.prems"(3,7) by auto
    have same: "w' = w"
      using "1.prems"(1) rd True by (subst (asm) copy_loop.simps) simp
    have A: "w' = w\<lparr>files := (files w)(dst \<mapsto> g),
             console := console w @ map (\<lambda>c. ProgressLine c ?t) []\<rparr>"
      using "1.prems"(5) by (simp add: same map_upd_triv)
    have B: "content g = content g @ drop pos (content f)"
      by (simp add: pos)
    have D: "length ([]::nat list) = (?n - pos + cs - 1) div cs"
      using "1.prems"(3) by (simp add: pos)
    have E: "\<forall>i<length ([]::nat list). [] ! i = min (pos + (i + 1) * cs) ?n"
      by simp
    show ?thesis
      by (rule exI [of _ g], rule exI [of _ "[]"]) (intro conjI A B D E refl)
  next
    case False
    then have lt: "pos < ?n"
      using "1.prems"(7) by (cases "pos < ?n") auto
    have len: "length ?chunk = min cs (?n - pos)"
      by (simp add: min.commute)
    from "1.prems"(1) rd False
    have rest: "(case fdst_write env dst pos ?chunk w of
               Inl e \<Rightarrow> (Some e, w)
             | Inr w1 \<Rightarrow>
                 (case update pr (pos + length ?chunk) w1 of
                    Inl e \<Rightarrow> (Some e, w1)
                  | Inr w2 \<Rightarrow>
                      copy_loop env src dst cs pr (pos + length ?chunk) w2)) = (None, w')"
      by (subst (asm) copy_loop.simps) simp
    then obtain w1 where wr: "fdst_write env dst pos ?chunk w = Inr w1"
      by (cases "fdst_write env dst pos ?chunk w") auto
    with rest obtain w2 where up: "update pr (pos + length ?chunk) w1 = Inr w2"
      by (cases "update pr (pos + length ?chunk) w1") auto
    with rest wr have rec: "copy_loop env src dst cs pr (pos + length ?chunk) w2 = (None, w')"
      by simp
    define g1 where "g1 = g\<lparr>content := content g @ ?chunk, mtime := clock env\<rparr>"
    have w1: "w1 = w\<lparr>files := (files w)(dst \<mapsto> g1)\<rparr>"
      using wr "1.prems"(5,6)
      by (auto simp: fdst_write_def g1_def write_at_end split: option.splits)
    have w2: "w2 = print_msg (ProgressLine (pos + length ?chunk) ?t) w1"
      using up by (auto simp: update_def split: if_splits)
    have f2: "files w2 src = Some f" "files w2 dst = Some g1"
      using w1 w2 "1.prems"(2,4) by (simp_all add: print_msg_def)
    have l2: "length (content g1) = pos + length ?chunk"
      using "1.prems"(6) by (simp add: g1_def)
    have b2: "pos + length ?chunk \<le> ?n"
      using lt len by arith
    from "1.IH" [OF rd False wr up rec "1.prems"(2,3) f2 l2 b2]
    obtain g' ps where
      w': "w' = w2\<lparr>files := (files w2)(dst \<mapsto> g'),
             console := console w2 @ map (\<lambda>c. ProgressLine c ?t) ps\<rparr>"
      and c': "content g' = content g1 @ drop (pos + length ?chunk) (content f)"
      and m': "mode g' = mode g1"
      and n': "length ps = (?n - (pos + length ?chunk) + cs - 1) div cs"
      and i': "\<forall>i<length ps. ps ! i = min (pos + length ?chunk + (i + 1) * cs) ?n"
      by blast
    let ?ps = "(pos + length ?chunk) # ps"
    have A: "w' = w\<lparr>files := (files w)(dst \<mapsto> g'),
             console := console w @ map (\<lambda>c. ProgressLine c ?t) ?ps\<rparr>"
      using w' w1 w2 by (simp add: print_msg_def)
    have B: "content g' = content g @ drop pos (content f)"
    proof -
      have "drop (pos + length ?chunk) (content f) = drop cs (drop pos (content f))"
        by (cases "cs \<le> ?n - pos") (simp_all add: min_def add.commute)
      then have "?chunk @ drop (pos + length ?chunk) (content f) = drop pos (content f)"
        by (simp only: append_take_drop_id)
      then show ?thesis using c' by (simp add: g1_def)
    qed
    have C: "mode g' = mode g"
      using m' by (simp add: g1_def)
    have D: "length ?ps = (?n - pos + cs - 1) div cs"
      using ceil_div_step [of cs "?n - pos"] "1.prems"(3) lt n' len
      by (simp add: diff_diff_left)
    have E: "\<forall>i<length ?ps. ?ps ! i = min (pos + (i + 1) * cs) ?n"
    proof (intro allI impI)
      fix i assume "i < length ?ps"
      show "?ps ! i = min (pos + (i + 1) * cs) ?n"
      proof (cases i)
        case 0
        have "pos + min cs (?n - pos) = min (pos + cs) ?n"
          using lt by arith
        with 0 show ?thesis by (simp add: min.commute)
      next
        case (Suc j)
        with \<open>i < length ?ps\<close> have j: "j < length ps" by simp
        then have ne: "ps \<noteq> []" by auto
        have full: "length ?chunk = cs"
        proof (rule ccontr)
          assume "length ?chunk \<noteq> cs"
          with len lt have "pos + length ?chunk = ?n" by arith
          with n' "1.prems"(3) have "length ps = 0" by simp
          with ne show False by simp
        qed
        from i' j have "ps ! j = min (pos + length ?chunk + (j + 1) * cs) ?n" by blast
        with Suc full show ?thesis by (simp add: add.assoc)
      qed
    qed
    show ?thesis
      by (rule exI [of _ g'], rule exI [of _ ?ps]) (intro conjI A B C D E)
  qed
qed

lemma copy_loop_at_end:
  "files w src \<noteq> None \<Longrightarrow> size_of w src \<le> pos \<Longrightarrow>
   copy_loop env src dst cs pr pos w = (fault env (OpRead pos), w)"
  by (subst copy_loop.simps) (auto simp: fsrc_read_def size_of_def split: option.splits)





lemma marks_closed:
  assumes "length ps = m" and "\<forall>i<length ps. ps ! i = min ((i + 1) * cs) (n::nat)"
  shows "ps = map (\<lambda>k. min (k * cs) n) [1..<Suc m]"
proof (rule nth_equalityI)
  show "length ps = length (map (\<lambda>k. min (k * cs) n) [1..<Suc m])"
    using assms(1) by simp
next
  fix i assume i: "i < length ps"
  with assms show "ps ! i = map (\<lambda>k. min (k * cs) n) [1..<Suc m] ! i"
    by (simp del: upt_Suc)
qed

lemma copy_with_progress_success:
  assumes ok: "copy_with_progress env src dst cs w = (None, w')" and cs: "0 < cs"
  shows "\<exists>f d s w2 d2.
      files w src = Some f \<and>
      stream_copy env src dst cs (ProgressBar_init (length (content f))) w = (None, w2) \<and>
      files w2 dst = Some d2 \<and> content d2 = content d \<and>
      copystat env src dst w2 = Inr w' \<and>
      files w' src = Some s \<and> files w' dst = Some d \<and>
      content d = content s \<and> mtime d = mtime s \<and> mode d = mode s \<and>
      (src \<noteq> dst \<longrightarrow> s = f) \<and>
      console w' = console w @
        map (\<lambda>k. ProgressLine (min (k * cs) (length (content d))) (length (content f)))
          [1..<Suc ((length (content d) + cs - 1) div cs)]"
proof -
  from ok obtain f where f: "files w src = Some f"
    and g0: "fault env OpGetsize = None"
    by (auto simp: copy_with_progress_def stat_size_def split: option.splits)
  let ?pr = "ProgressBar_init (length (content f))"
  from ok f g0 obtain w2 where sc: "stream_copy env src dst cs ?pr w = (None, w2)"
    and cst: "copystat env src dst w2 = Inr w'"
    by (cases "stream_copy env src dst cs ?pr w")
       (auto simp: copy_with_progress_def stat_size_def split: option.splits sum.splits)
  from sc obtain w1 where ow: "open_wb env dst w = Inr w1"
    and lp: "copy_loop env src dst cs ?pr 0 w1 = (None, w1')" if "w1' = w2" for w1'
    by (auto simp: stream_copy_def split: sum.splits)
  from ow have nd: "fault env OpOpenDst = None" "dst \<notin> dirs w" "butlast dst \<in> dirs w"
    by (auto simp: open_wb_def split: option.splits if_splits)
  define g0 where "g0 = (case files w dst of
                    None \<Rightarrow> \<lparr>content = [], mtime = clock env, mode = umask_mode env\<rparr>
                  | Some f \<Rightarrow> f\<lparr>content := [], mtime := clock env\<rparr>)"
  have w1: "w1 = w\<lparr>files := (files w)(dst \<mapsto> g0)\<rparr>"
    using ow nd by (simp add: open_wb_def g0_def)
  have cg0: "content g0 = []"
    by (simp add: g0_def split: option.splits)
  show ?thesis
  proof (cases "src = dst")
    case True
    have "copy_loop env src dst cs ?pr 0 w1 = (fault env (OpRead 0), w1)"
      using w1 True cg0 by (intro copy_loop_at_end) (simp_all add: size_of_def)
    with lp have w2: "w2 = w1" by simp
    from cst have w': "w' = w1"
      using w1 True by (auto simp: w2 copystat_def map_upd_triv split: option.splits)
    show ?thesis
      apply (rule exI [of _ f], rule exI [of _ g0], rule exI [of _ g0], rule exI [of _ w2],
          rule exI [of _ g0])
      using f sc cst True w1 w2 w' cg0 cs by simp
  next
    case False
    have "\<exists>g' ps.
      w2 = w1\<lparr>files := (files w1)(dst \<mapsto> g'),
             console := console w1 @ map (\<lambda>c. ProgressLine c (total_size ?pr)) ps\<rparr> \<and>
      content g' = content g0 @ drop 0 (content f) \<and> mode g' = mode g0 \<and>
      length ps = (length (content f) - 0 + cs - 1) div cs \<and>
      (\<forall>i<length ps. ps ! i = min (0 + (i + 1) * cs) (length (content f)))"
    proof (rule copy_loop_ok [OF lp [OF refl] False cs])
      show "files w1 src = Some f" using w1 f False by simp
      show "files w1 dst = Some g0" using w1 by simp
      show "length (content g0) = 0" using cg0 by simp
      show "0 \<le> length (content f)" by simp
    qed
    then obtain g' ps where
      w2: "w2 = w1\<lparr>files := (files w1)(dst \<mapsto> g'),
             console := console w1 @ map (\<lambda>c. ProgressLine c (total_size ?pr)) ps\<rparr>"
      and cg': "content g' = content f"
      and lps: "length ps = (length (content f) + cs - 1) div cs"
      and ips: "\<forall>i<length ps. ps ! i = min ((i + 1) * cs) (length (content f))"
      using cg0 by auto
    have ps: "ps = map (\<lambda>k. min (k * cs) (length (content f)))
                 [1..<Suc ((length (content f) + cs - 1) div cs)]"
      using lps ips by (rule marks_closed)
    define d where "d = g'\<lparr>mtime := mtime f, mode := mode f\<rparr>"
    have fs2: "files w2 src = Some f" "files w2 dst = Some g'"
      using w2 w1 f False by simp_all
    have w': "w' = w2\<lparr>files := (files w2)(dst \<mapsto> d)\<rparr>"
      using cst fs2 by (auto simp: copystat_def d_def split: option.splits)
    have con: "console w' = console w @
        map (\<lambda>k. ProgressLine (min (k * cs) (length (content d))) (length (content f)))
          [1..<Suc ((length (content d) + cs - 1) div cs)]"
      using w' w2 w1 cg' by (simp add: d_def ps ProgressBar_init_def comp_def)
    show ?thesis
      apply (rule exI [of _ f], rule exI [of _ d], rule exI [of _ f], rule exI [of _ w2],
          rule exI [of _ g'])
      using f sc cst False fs2 w' cg' con by (simp add: d_def)
  qed
qed

text \<open>
  Claim C4. Let \<open>copy_with_progress\<close> return normally with the default chunk size, which is
  8 KiB. Then the source existed with some node \<open>f\<close>; the \<open>with\<close> block ended normally in a
  world \<open>w2\<close> in which the destination already has its final content; \<open>copystat\<close> ran after
  that, on \<open>w2\<close>, and gave the final world; there the destination has the content, the
  modification time and the permission bits of the source. The progress lines printed are
  the cumulative byte counts after each chunk: the \<open>k\<close>-th line reports
  \<open>min (k * 8192) n\<close> of \<open>total_size\<close> bytes, for \<open>k\<close> from 1 to the number of chunks of the
  \<open>n\<close> bytes copied. When the destination is another path than the source, the source is
  as it was before the call, so the destination holds the bytes the source had. (When both
  paths are the same file, opening it for writing empties it; the call then reports nothing
  and leaves it empty.)
\<close>

theorem copy_with_progress_streams:
  assumes "copy_with_progress env src dst default_chunk_size w = (None, w')"
  shows "default_chunk_size = 8 * 1024 \<and>
    (\<exists>f d s w2 d2.
      files w src = Some f \<and>
      stream_copy env src dst default_chunk_size (ProgressBar_init (length (content f))) w =
        (None, w2) \<and>
      files w2 dst = Some d2 \<and> content d2 = content d \<and>
      copystat env src dst w2 = Inr w' \<and>
      files w' src = Some s \<and> files w' dst = Some d \<and>
      content d = content s \<and> mtime d = mtime s \<and> mode d = mode s \<and>
      (src \<noteq> dst \<longrightarrow> s = f) \<and>
      console w' = console w @
        map (\<lambda>k. ProgressLine (min (k * default_chunk_size) (length (content d)))
                  (length (content f)))
          [1..<Suc ((length (content d) + default_chunk_size - 1) div default_chunk_size)])"
proof
  show "default_chunk_size = 8 * 1024"
    by (simp add: default_chunk_size_def)
  then have "0 < default_chunk_size"
    by simp
  then show "\<exists>f d s w2 d2.
      files w src = Some f \<and>
      stream_copy env src dst default_chunk_size (ProgressBar_init (length (content f))) w =
        (None, w2) \<and>
      files w2 dst = Some d2 \<and> content d2 = content d \<and>
      copystat env src dst w2 = Inr w' \<and>
      files w' src = Some s \<and> files w' dst = Some d \<and>
      content d = content s \<and> mtime d = mtime s \<and> mode d = mode s \<and>
      (src \<noteq> dst \<longrightarrow> s = f) \<and>
      console w' = console w @
        map (\<lambda>k. ProgressLine (min (k * default_chunk_size) (length (content d)))
                  (length (content f)))
          [1..<Suc ((length (content d) + default_chunk_size - 1) div default_chunk_size)]"
    by (rule copy_with_progress_success [OF assms])
qed

lemma two_chunk_copy:
  "copy_with_progress quiet_env shot (inbox @ [''shot.png'']) default_chunk_size
     (disk (replicate 8197 1)) =
   (None,
    (disk (replicate 8197 1))
      \<lparr>files := [shot \<mapsto> \<lparr>content = replicate 8197 1, mtime = 3, mode = 384\<rparr>,
                 inbox @ [''shot.png''] \<mapsto>
                   \<lparr>content = replicate 8197 1, mtime = 3, mode = 384\<rparr>],
       console := [ProgressLine 8192 8197, ProgressLine 8197 8197]\<rparr>)"
  by (simp add: copy_with_progress_def stream_copy_def stat_size_def open_rb_def open_wb_def
      copystat_def copy_loop.simps fsrc_read_def fdst_write_def update_def write_at_def
      print_msg_def ProgressBar_init_def quiet_env_def disk_def shot_def inbox_def
      default_chunk_size_def replicate_add [symmetric])

theorem copy_with_progress_streams_witness:
  "\<exists>w'. copy_with_progress quiet_env shot (inbox @ [''shot.png'']) default_chunk_size
          (disk (replicate 8197 1)) = (None, w') \<and>
     (\<exists>d. files w' (inbox @ [''shot.png'']) = Some d \<and> content d = replicate 8197 1 \<and>
          mtime d = 3 \<and> mode d = 384) \<and>
     console w' = [ProgressLine 8192 8197, ProgressLine 8197 8197]"
proof -
  let ?dst = "inbox @ [''shot.png'']"
  obtain w' where ev: "copy_with_progress quiet_env shot ?dst default_chunk_size
          (disk (replicate 8197 1)) = (None, w')"
    using two_chunk_copy by blast
  from copy_with_progress_streams [OF ev]
  obtain f d s where cs: "default_chunk_size = 8 * 1024"
    and f: "files (disk (replicate 8197 1)) shot = Some f"
    and d: "files w' ?dst = Some d" "content d = content s" "mtime d = mtime s"
      "mode d = mode s"
    and s: "shot \<noteq> ?dst \<longrightarrow> s = f"
    and c: "console w' = console (disk (replicate 8197 1)) @
        map (\<lambda>k. ProgressLine (min (k * default_chunk_size) (length (content d)))
                  (length (content f)))
          [1..<Suc ((length (content d) + default_chunk_size - 1) div default_chunk_size)]"
    by blast
  have "shot \<noteq> ?dst" by (simp add: shot_def inbox_def)
  with s have sf: "s = f" by simp
  from f have f': "f = \<lparr>content = replicate 8197 1, mtime = 3, mode = 384\<rparr>"
    by (simp add: disk_def)
  have "[1..<Suc ((8197 + 8 * 1024 - 1) div (8 * 1024))] = [1, 2::nat]"
    by (simp add: upt_rec)
  with c d sf f' cs have "console w' = [ProgressLine 8192 8197, ProgressLine 8197 8197]"
    by (simp add: disk_def)
  with ev d sf f' show ?thesis by auto
qed


section \<open>The event handler: the in-flight set, unstable files, failed copies\<close>


lemma handle_file_event_fresh:
  assumes "p \<notin> processing_files self"
  shows "handle_file_event env p ev (self, w) =
     ((case fst (copy_file env (self\<lparr>processing_files := insert p (processing_files self)\<rparr>) p w) of
         Inl e \<Rightarrow> Raised e | Inr _ \<Rightarrow> Handled),
      self,
      snd (copy_file env (self\<lparr>processing_files := insert p (processing_files self)\<rparr>) p w))"
proof -
  have "insert p (processing_files self) - {p} = processing_files self"
    using assms by auto
  then show ?thesis
    using assms by (simp add: handle_file_event_def set_remove_def Let_def split: sum.splits)
qed

lemma handle_file_event_not_skipped:
  "p \<notin> processing_files self \<Longrightarrow> fst (handle_file_event env p ev (self, w)) \<noteq> Skipped"
  by (simp add: handle_file_event_fresh split: sum.splits)




lemma copy_file_unstable:
  assumes "mkdir_parents env (destination_dir self) (sleep_grace env w) = Inr w2"
    and "stat_size env OpStat1 p w2 = Inr n1"
    and "stat_size env OpStat2 p (sleep_check env w2) = Inr n2"
    and "n1 \<noteq> n2"
  shows "copy_file env self p w = (Inr Unstable, sleep_check env w2)"
  using assms by (simp add: copy_file_def copy_file_try_def Let_def)

lemma mkdir_parents_only_dirs:
  "mkdir_parents env d w = Inr w2 \<Longrightarrow>
   files w2 = files w \<and> console w2 = console w \<and> logrecs w2 = logrecs w"
  by (auto simp: mkdir_parents_def split: option.splits if_splits)

text \<open>
  Claim C3. Let the two size checks of \<open>_copy_file\<close>, before and after the sleep of 0.5
  seconds, succeed with different sizes. Then \<open>_copy_file\<close> returns from the size check:
  the files are what other processes made of them during the two sleeps (the handler wrote
  no byte), nothing was printed or logged (so no success), the handler is as before the
  event (the path is out of the in-flight set), and a later event for the path is not
  dropped.
\<close>

theorem unstable_file_not_copied:
  assumes "p \<notin> processing_files self"
    and "mkdir_parents env (destination_dir self) (sleep_grace env w) = Inr w2"
    and "stat_size env OpStat1 p w2 = Inr n1"
    and "stat_size env OpStat2 p (sleep_check env w2) = Inr n2"
    and "n1 \<noteq> n2"
  shows "copy_file env (self\<lparr>processing_files := insert p (processing_files self)\<rparr>) p w =
       (Inr Unstable, sleep_check env w2) \<and>
     handle_file_event env p ev (self, w) = (Handled, self, sleep_check env w2) \<and>
     files (sleep_check env w2) = check_writer env (grace_writer env (files w)) \<and>
     console (sleep_check env w2) = console w \<and>
     logrecs (sleep_check env w2) = logrecs w \<and>
     fst (handle_file_event env' p ev' (self, sleep_check env w2)) \<noteq> Skipped"
proof -
  let ?self1 = "self\<lparr>processing_files := insert p (processing_files self)\<rparr>"
  have "mkdir_parents env (destination_dir ?self1) (sleep_grace env w) = Inr w2"
    using assms(2) by simp
  then have c: "copy_file env ?self1 p w = (Inr Unstable, sleep_check env w2)"
    using assms(3-5) by (rule copy_file_unstable)
  have h: "handle_file_event env p ev (self, w) = (Handled, self, sleep_check env w2)"
    using assms(1) by (simp add: handle_file_event_fresh c)
  from mkdir_parents_only_dirs [OF assms(2)]
  have f: "files (sleep_check env w2) = check_writer env (grace_writer env (files w))"
    and o: "console (sleep_check env w2) = console w"
           "logrecs (sleep_check env w2) = logrecs w"
    by (simp_all add: sleep_check_def sleep_grace_def)
  have n: "fst (handle_file_event env' p ev' (self, sleep_check env w2)) \<noteq> Skipped"
    using assms(1) by (rule handle_file_event_not_skipped)
  from c h f o n show ?thesis by simp
qed

lemma disk_after_mkdir:
  "mkdir_parents growing_env (destination_dir handler0) (sleep_grace growing_env (disk [1, 2])) =
     Inr (disk [1, 2])"
  by (simp add: mkdir_parents_def sleep_grace_def ancestors_def growing_env_def quiet_env_def
      handler0_def disk_def inbox_def shot_def insert_commute)

theorem unstable_file_not_copied_witness:
  "shot \<notin> processing_files handler0 \<and>
   stat_size growing_env OpStat1 shot (disk [1, 2]) = Inr 2 \<and>
   stat_size growing_env OpStat2 shot (sleep_check growing_env (disk [1, 2])) = Inr 4 \<and>
   handle_file_event growing_env shot ''modified'' (handler0, disk [1, 2]) =
     (Handled, handler0, sleep_check growing_env (disk [1, 2])) \<and>
   files (sleep_check growing_env (disk [1, 2])) (inbox @ [''shot.png'']) = None \<and>
   console (sleep_check growing_env (disk [1, 2])) = [] \<and>
   fst (handle_file_event quiet_env shot ''modified''
          (handler0, sleep_check growing_env (disk [1, 2]))) \<noteq> Skipped"
proof -
  have a: "shot \<notin> processing_files handler0"
    by (simp add: handler0_def)
  have s1: "stat_size growing_env OpStat1 shot (disk [1, 2]) = Inr 2"
    by (simp add: stat_size_def growing_env_def quiet_env_def disk_def)
  have s2: "stat_size growing_env OpStat2 shot (sleep_check growing_env (disk [1, 2])) = Inr 4"
    by (simp add: stat_size_def sleep_check_def growing_env_def quiet_env_def disk_def)
  have d: "(2::nat) \<noteq> 4"
    by simp
  note u = unstable_file_not_copied [OF a disk_after_mkdir s1 s2 d,
      where ev = "''modified''" and env' = quiet_env and ev' = "''modified''"]
  have "files (sleep_check growing_env (disk [1, 2])) (inbox @ [''shot.png'']) = None"
    by (simp add: sleep_check_def growing_env_def quiet_env_def disk_def inbox_def shot_def)
  moreover have "console (disk [1, 2]) = []"
    by (simp add: disk_def)
  ultimately show ?thesis
    using a s1 s2 u by simp
qed

text \<open>
  Claim C5. Let the \<open>try\<close> block of \<open>_copy_file\<close> raise an exception \<open>e\<close> that is an
  \<open>Exception\<close> (every failure of \<open>mkdir\<close>, \<open>stat\<close>, \<open>open\<close>, \<open>read\<close>, \<open>write\<close> or
  \<open>copystat\<close> is an \<open>OSError\<close>, and the \<open>ZeroDivisionError\<close> of the progress bar is one too).
  Then \<open>_copy_file\<close> prints the error with the time, the file name and \<open>str(e)\<close>, hands the
  same to \<open>logging.error\<close>, and returns; \<open>_handle_file_event\<close> and the \<open>on_modified\<close>
  callback return normally with the handler as it was before the event, and an event for
  any path that is not in the in-flight set is handled afterwards.
\<close>

theorem copy_failure_is_contained:
  assumes "p \<notin> processing_files self"
    and "copy_file_try env (self\<lparr>processing_files := insert p (processing_files self)\<rparr>) p w =
           (Inl e, w1)"
    and "is_Exception e"
  shows "\<exists>w'.
     w' = w1\<lparr>console := console w1 @ [CopyError (now env) (path_name p) (exn_str e)],
             logrecs := logrecs w1 @
               [LogError (''Error copying '' @ path_name p @ '': '' @ exn_str e)]\<rparr> \<and>
     copy_file env (self\<lparr>processing_files := insert p (processing_files self)\<rparr>) p w =
       (Inr (Failed e), w') \<and>
     handle_file_event env p ev (self, w) = (Handled, self, w') \<and>
     dispatch env \<lparr>src_path = p, is_directory = False, event_type = EvModified\<rparr> (self, w) =
       (Handled, self, w') \<and>
     (\<forall>q. q \<notin> processing_files self \<longrightarrow>
        fst (handle_file_event env' q ev' (self, w')) \<noteq> Skipped)"
proof -
  let ?self1 = "self\<lparr>processing_files := insert p (processing_files self)\<rparr>"
  define w' where "w' = w1\<lparr>console := console w1 @ [CopyError (now env) (path_name p) (exn_str e)],
             logrecs := logrecs w1 @
               [LogError (''Error copying '' @ path_name p @ '': '' @ exn_str e)]\<rparr>"
  have c: "copy_file env ?self1 p w = (Inr (Failed e), w')"
    using assms(2,3)
    by (simp add: copy_file_def w'_def log_error_def logging_error_def print_msg_def)
  have h: "handle_file_event env p ev (self, w) = (Handled, self, w')"
    using assms(1) by (simp add: handle_file_event_fresh c)
  have d: "dispatch env \<lparr>src_path = p, is_directory = False, event_type = EvModified\<rparr>
       (self, w) = (Handled, self, w')"
    using assms(1) by (simp add: dispatch_def on_modified_def handle_file_event_fresh c)
  have n: "\<forall>q. q \<notin> processing_files self \<longrightarrow>
        fst (handle_file_event env' q ev' (self, w')) \<noteq> Skipped"
    by (simp add: handle_file_event_not_skipped)
  from c h d n w'_def show ?thesis by blast
qed

lemma copy_file_try_full_disk:
  "copy_file_try full_disk_env
     (handler0\<lparr>processing_files := insert shot (processing_files handler0)\<rparr>) shot
     (disk [1, 2]) =
   (Inl (OSError ''No space left on device''),
    (disk [1, 2])
      \<lparr>files := [shot \<mapsto> \<lparr>content = [1, 2], mtime = 3, mode = 384\<rparr>,
                 inbox @ [''shot.png''] \<mapsto> \<lparr>content = [], mtime = 7, mode = 420\<rparr>],
       console := [CopyStart ''10:15:00 AM'' ''shot.png'']\<rparr>)"
  by (simp add: copy_file_try_def sleep_grace_def sleep_check_def mkdir_parents_def
      ancestors_def stat_size_def copy_with_progress_def stream_copy_def open_rb_def
      open_wb_def copy_loop.simps fsrc_read_def fdst_write_def print_msg_def path_name_def
      ProgressBar_init_def default_chunk_size_def full_disk_env_def quiet_env_def
      handler0_def disk_def inbox_def shot_def Let_def insert_commute)

theorem copy_failure_is_contained_witness:
  "shot \<notin> processing_files handler0 \<and>
   is_Exception (OSError ''No space left on device'') \<and>
   (\<exists>w'. handle_file_event full_disk_env shot ''modified'' (handler0, disk [1, 2]) =
            (Handled, handler0, w') \<and>
          console w' = [CopyStart ''10:15:00 AM'' ''shot.png'',
                        CopyError ''10:15:00 AM'' ''shot.png'' ''No space left on device''] \<and>
          logrecs w' = [LogError ''Error copying shot.png: No space left on device''] \<and>
          fst (handle_file_event quiet_env [''output'', ''01-04'', ''next.png''] ''modified''
                 (handler0, w')) \<noteq> Skipped)"
proof -
  have a: "shot \<notin> processing_files handler0"
    by (simp add: handler0_def)
  have b: "is_Exception (OSError ''No space left on device'')"
    by simp
  from copy_failure_is_contained [OF a copy_file_try_full_disk b,
      where ev = "''modified''" and env' = quiet_env and ev' = "''modified''"]
  obtain w' where
    w': "w' = (disk [1, 2])
      \<lparr>files := [shot \<mapsto> \<lparr>content = [1, 2], mtime = 3, mode = 384\<rparr>,
                 inbox @ [''shot.png''] \<mapsto> \<lparr>content = [], mtime = 7, mode = 420\<rparr>],
       console := [CopyStart ''10:15:00 AM'' ''shot.png'']\<rparr>
      \<lparr>console := console ((disk [1, 2])
      \<lparr>files := [shot \<mapsto> \<lparr>content = [1, 2], mtime = 3, mode = 384\<rparr>,
                 inbox @ [''shot.png''] \<mapsto> \<lparr>content = [], mtime = 7, mode = 420\<rparr>],
       console := [CopyStart ''10:15:00 AM'' ''shot.png'']\<rparr>) @
          [CopyError (now full_disk_env) (path_name shot)
             (exn_str (OSError ''No space left on device''))],
       logrecs := logrecs ((disk [1, 2])
      \<lparr>files := [shot \<mapsto> \<lparr>content = [1, 2], mtime = 3, mode = 384\<rparr>,
                 inbox @ [''shot.png''] \<mapsto> \<lparr>content = [], mtime = 7, mode = 420\<rparr>],
       console := [CopyStart ''10:15:00 AM'' ''shot.png'']\<rparr>) @
          [LogError (''Error copying '' @ path_name shot @ '': '' @
             exn_str (OSError ''No space left on device''))]\<rparr>"
    and h: "handle_file_event full_disk_env shot ''modified'' (handler0, disk [1, 2]) =
            (Handled, handler0, w')"
    and n: "\<forall>q. q \<notin> processing_files handler0 \<longrightarrow>
        fst (handle_file_event quiet_env q ''modified'' (handler0, w')) \<noteq> Skipped"
    by blast
  from w' have "console w' = [CopyStart ''10:15:00 AM'' ''shot.png'',
                        CopyError ''10:15:00 AM'' ''shot.png'' ''No space left on device'']"
    and "logrecs w' = [LogError ''Error copying shot.png: No space left on device'']"
    by (simp_all add: full_disk_env_def quiet_env_def path_name_def shot_def disk_def)
  moreover from n have "fst (handle_file_event quiet_env [''output'', ''01-04'', ''next.png'']
      ''modified'' (handler0, w')) \<noteq> Skipped"
    by (simp add: handler0_def)
  ultimately show ?thesis
    using a b h by blast
qed

text \<open>
  Claim C6 says that a created notification for a file is handled as a modified one is.
  \<open>FileHandler\<close> in \<open>src/src/file_handler.py\<close> defines \<open>on_modified\<close> only: a created
  notification is dispatched to the \<open>on_created\<close> it inherits, which does nothing, so
  handler and world are unchanged and the file is not looked at.
\<close>

theorem created_event_not_handled:
  "dispatch env \<lparr>src_path = p, is_directory = False, event_type = EvCreated\<rparr> (self, w) =
     (Ignored, self, w)"
  by (simp add: dispatch_def)

section \<open>The monitor: the menu guard\<close>

lemma phase_of_set_phase:
  "phase_of (set_phase i ph w) j =
     (if j < length (observers w) then Some (if j = i then ph else phase (observers w ! j))
      else None)"
  by (simp add: phase_of_def set_phase_def snapshot_def nth_list_update)

lemma phase_of_print_msg [simp]: "phase_of (print_msg x w) j = phase_of w j"
  by (simp add: phase_of_def print_msg_def)

lemma phase_after_stop: "phase_of (Observer_stop i w) i \<noteq> Some Running"
  by (auto simp: Observer_stop_def phase_of_set_phase split: option.splits phase.splits)

lemma join_after_stop: "Observer_join i (Observer_stop i w) \<noteq> Blocked"
  using phase_after_stop [of i w]
  by (auto simp: Observer_join_def split: option.splits phase.splits)

lemma join_after_stop_print: "Observer_join i (print_msg x (Observer_stop i w)) \<noteq> Blocked"
  using phase_after_stop [of i w]
  by (auto simp: Observer_join_def split: option.splits phase.splits)

lemma stop_returns: "fst (stop env s) \<noteq> Blocked"
  using join_after_stop_print
  by (auto simp: stop_def Let_def split: option.splits result.splits)

lemma stop_current_returns: "fst (stop_current self w) \<noteq> Blocked"
  using join_after_stop
  by (auto simp: stop_current_def Let_def split: option.splits result.splits)

lemma start_monitoring_returns: "fst (start_monitoring env s) \<noteq> Blocked"
  by (auto simp: start_monitoring_def Let_def split: option.splits sum.splits prod.splits)

lemma change_source_folder_returns: "fst (change_source_folder env s) \<noteq> Blocked"
  using stop_current_returns [of "fst s" "snd s"] start_monitoring_returns
  by (auto simp: change_source_folder_def Let_def
           split: option.splits sum.splits prod.splits result.splits)

lemma show_menu_try_returns: "fst (show_menu_try env s) \<noteq> Blocked"
  using change_source_folder_returns stop_returns
  by (auto simp: show_menu_try_def Let_def split: sum.splits prod.splits)

lemma show_menu_busy:
  "menu_active self \<Longrightarrow> show_menu env (self, w) = (Return MenuBusy, self, w)"
  by (simp add: show_menu_def)

lemma show_menu_idle:
  assumes "\<not> menu_active self"
  shows "\<exists>r self' w'. show_menu_try env (self\<lparr>menu_active := True\<rparr>, w) = (r, self', w') \<and>
     r \<noteq> Blocked \<and>
     show_menu env (self, w) =
       ((case r of Return _ \<Rightarrow> Return MenuDone | Raise e \<Rightarrow> Raise e | Blocked \<Rightarrow> Blocked),
        self'\<lparr>menu_active := False\<rparr>, w')"
proof -
  obtain r self' w' where t: "show_menu_try env (self\<lparr>menu_active := True\<rparr>, w) = (r, self', w')"
    by (metis prod_cases3)
  with show_menu_try_returns [of env "(self\<lparr>menu_active := True\<rparr>, w)"]
  have nb: "r \<noteq> Blocked" by simp
  then have "show_menu env (self, w) =
       ((case r of Return _ \<Rightarrow> Return MenuDone | Raise e \<Rightarrow> Raise e | Blocked \<Rightarrow> Blocked),
        self'\<lparr>menu_active := False\<rparr>, w')"
    using assms t by (cases r) (simp_all add: show_menu_def)
  with t nb show ?thesis by blast
qed

text \<open>
  Claim C9. While \<open>menu_active\<close> is set, \<open>show_menu\<close> returns at once and changes neither
  the monitor nor the world. Otherwise it always comes back (the \<open>join\<close> in the actions
  follows a \<open>stop\<close>, so it does not wait for ever), it comes back with \<open>menu_active\<close>
  unset whether the interaction returned or raised (the end of input at a prompt, or an
  exception of the chosen action), and a later call does not take the early return.
\<close>

theorem menu_guard:
  "(menu_active self \<longrightarrow> show_menu env (self, w) = (Return MenuBusy, self, w)) \<and>
   (\<not> menu_active self \<longrightarrow>
      (\<exists>r self' w'.
         show_menu env (self, w) = (r, self', w') \<and>
         r \<noteq> Blocked \<and> r \<noteq> Return MenuBusy \<and> \<not> menu_active self' \<and>
         fst (show_menu env' (self', w')) \<noteq> Return MenuBusy))"
proof (intro conjI impI)
  assume "menu_active self"
  then show "show_menu env (self, w) = (Return MenuBusy, self, w)"
    by (rule show_menu_busy)
next
  assume idle: "\<not> menu_active self"
  from show_menu_idle [OF idle, of env w]
  obtain r :: "unit result" and self' w' where nb: "r \<noteq> Blocked"
    and m: "show_menu env (self, w) =
       ((case r of Return _ \<Rightarrow> Return MenuDone | Raise e \<Rightarrow> Raise e | Blocked \<Rightarrow> Blocked),
        self'\<lparr>menu_active := False\<rparr>, w')"
    by blast
  let ?r = "case r of Return _ \<Rightarrow> Return MenuDone | Raise e \<Rightarrow> Raise e | Blocked \<Rightarrow> Blocked"
  let ?self = "self'\<lparr>menu_active := False\<rparr>"
  have 1: "?r \<noteq> Blocked" "?r \<noteq> Return MenuBusy"
    using nb by (cases r; simp)+
  have 2: "\<not> menu_active ?self"
    by simp
  from show_menu_idle [OF 2, of env' w']
  obtain r2 :: "unit result" and self2 w2 where
    "show_menu env' (?self, w') =
       ((case r2 of Return _ \<Rightarrow> Return MenuDone | Raise e \<Rightarrow> Raise e | Blocked \<Rightarrow> Blocked),
        self2\<lparr>menu_active := False\<rparr>, w2)"
    by blast
  then have 3: "fst (show_menu env' (?self, w')) \<noteq> Return MenuBusy"
    by (cases r2) simp_all
  from m 1 2 3 show "\<exists>r self' w'.
         show_menu env (self, w) = (r, self', w') \<and>
         r \<noteq> Blocked \<and> r \<noteq> Return MenuBusy \<and> \<not> menu_active self' \<and>
         fst (show_menu env' (self', w')) \<noteq> Return MenuBusy"
    by blast
qed

lemma show_menu_eof:
  "fst (show_menu quiet_env (monitor0, watching [''1''])) = Raise EOFError"
  by (simp add: show_menu_def show_menu_try_def input_line_def print_msg_def strip_def
      is_space_def change_source_folder_def stop_current_def Observer_stop_def
      Observer_join_def phase_of_def set_phase_def snapshot_def gvfn_eof monitor0_def
      watching_def FileMonitor_init_def Let_def)

theorem menu_guard_witness:
  "\<not> menu_active monitor0 \<and> menu_active (monitor0\<lparr>menu_active := True\<rparr>) \<and>
   show_menu quiet_env (monitor0\<lparr>menu_active := True\<rparr>, watching [''1'']) =
     (Return MenuBusy, monitor0\<lparr>menu_active := True\<rparr>, watching [''1'']) \<and>
   (\<exists>self' w'. show_menu quiet_env (monitor0, watching [''1'']) = (Raise EOFError, self', w') \<and>
      \<not> menu_active self' \<and> fst (show_menu quiet_env (self', w')) \<noteq> Return MenuBusy)"
proof -
  have a: "\<not> menu_active monitor0"
    by (simp add: monitor0_def FileMonitor_init_def)
  have b: "menu_active (monitor0\<lparr>menu_active := True\<rparr>)"
    by simp
  from menu_guard [where self = "monitor0\<lparr>menu_active := True\<rparr>" and env = quiet_env
      and w = "watching [''1'']"] b
  have c: "show_menu quiet_env (monitor0\<lparr>menu_active := True\<rparr>, watching [''1'']) =
     (Return MenuBusy, monitor0\<lparr>menu_active := True\<rparr>, watching [''1''])"
    by blast
  from menu_guard [where self = monitor0 and env = quiet_env and w = "watching [''1'']"
      and env' = quiet_env] a
  obtain r self' w' where
    m: "show_menu quiet_env (monitor0, watching [''1'']) = (r, self', w')"
    and n: "\<not> menu_active self'" "fst (show_menu quiet_env (self', w')) \<noteq> Return MenuBusy"
    by blast
  from m show_menu_eof have "r = Raise EOFError"
    by simp
  with m n a b c show ?thesis
    by blast
qed

section \<open>The monitor: one watch session at a time\<close>

lemma list_all_upt: "list_all P [0..<n] \<longleftrightarrow> (\<forall>j<n. P j)"
  by (auto simp: list_all_iff)

lemma monitor_ok_iff:
  "monitor_ok self w \<longleftrightarrow>
     (\<forall>ob. observer self = Some ob \<longrightarrow> ob < length (observers w)) \<and>
     (\<forall>j<length (observers w). alive (phase (observers w ! j)) \<longrightarrow> observer self = Some j)"
proof (cases "observer self")
  case None
  then show ?thesis by (simp add: monitor_ok_def list_all_upt)
next
  case (Some ob)
  then show ?thesis by (simp add: monitor_ok_def list_all_upt)
qed

lemma alive_count_none:
  assumes "\<forall>j<length ps. \<not> alive (ps ! j)"
  shows "alive_count ps = 0"
proof -
  have "\<forall>x\<in>set ps. \<not> alive x"
  proof
    fix x assume "x \<in> set ps"
    then obtain j where "j < length ps" "ps ! j = x"
      by (auto simp only: in_set_conv_nth)
    with assms show "\<not> alive x" by blast
  qed
  then have "filter alive ps = []"
    by (rule filter_False)
  then show ?thesis
    by (simp add: alive_count_def)
qed

lemma alive_count_snoc: "alive_count (ps @ [x]) = alive_count ps + (if alive x then 1 else 0)"
  by (simp add: alive_count_def)

lemma alive_count_update:
  assumes "ob < length ps" and "\<forall>j<length ps. j \<noteq> ob \<longrightarrow> \<not> alive (ps ! j)"
  shows "alive_count (ps[ob := ph]) = (if alive ph then 1 else 0)"
proof -
  have "\<forall>j<length (take ob ps). \<not> alive (take ob ps ! j)"
    using assms by simp
  then have a: "alive_count (take ob ps) = 0"
    by (rule alive_count_none)
  have "\<forall>j<length (drop (Suc ob) ps). \<not> alive (drop (Suc ob) ps ! j)"
    using assms by simp
  then have b: "alive_count (drop (Suc ob) ps) = 0"
    by (rule alive_count_none)
  have "ps[ob := ph] = take ob ps @ ph # drop (Suc ob) ps"
    using assms(1) by (rule upd_conv_take_nth_drop)
  then show ?thesis
    using a b by (simp add: alive_count_def)
qed

lemma map_phase_set_phase:
  "map phase (observers (set_phase i ph w)) = (map phase (observers w))[i := ph]"
  by (simp add: set_phase_def snapshot_def map_update)

lemma timeline_set_phase:
  "timeline (set_phase i ph w) = timeline w @ [(map phase (observers w))[i := ph]]"
  by (simp add: set_phase_def snapshot_def map_update)

lemma stop_current_effect:
  assumes ok: "monitor_ok self w" and sc: "stop_current self w = (r, w1)"
  shows "r \<noteq> Blocked \<and>
    length (observers w1) = length (observers w) \<and>
    (\<exists>snaps. timeline w1 = timeline w @ snaps \<and>
       (\<forall>ps\<in>set snaps. length ps = length (observers w) \<and> alive_count ps \<le> 1)) \<and>
    (r = Return () \<longrightarrow>
       (\<forall>j<length (observers w1). \<not> alive (phase (observers w1 ! j))) \<and>
       (\<forall>ob. observer self = Some ob \<longrightarrow> phase (observers w1 ! ob) = Dead)) \<and>
    (r \<noteq> Return () \<longrightarrow> w1 = w)"
proof (cases "observer self")
  case None
  with ok have "\<forall>j<length (observers w). \<not> alive (phase (observers w ! j))"
    by (auto simp: monitor_ok_iff)
  with None sc show ?thesis
    by (auto simp: stop_current_def)
next
  case (Some ob)
  let ?ps = "map phase (observers w)"
  from ok Some have ob: "ob < length (observers w)"
    and others: "\<forall>j<length (observers w). j \<noteq> ob \<longrightarrow> \<not> alive (phase (observers w ! j))"
    by (auto simp: monitor_ok_iff)
  have cnt: "alive_count (?ps[ob := ph]) \<le> 1" for ph
    using alive_count_update [of ob ?ps ph] ob others by simp
  have po: "phase_of w ob = Some (phase (observers w ! ob))"
    using ob by (simp add: phase_of_def)
  show ?thesis
  proof (cases "phase (observers w ! ob)")
    case Unstarted
    with sc Some po show ?thesis
      by (auto simp: stop_current_def Observer_stop_def Observer_join_def Let_def)
  next
    case Running
    let ?wa = "set_phase ob StopRequested w"
    have "phase_of ?wa ob = Some StopRequested"
      using ob by (simp add: phase_of_set_phase)
    with sc Some po Running have r: "r = Return ()" and w1: "w1 = set_phase ob Dead ?wa"
      by (auto simp: stop_current_def Observer_stop_def Observer_join_def Let_def)
    have tl: "timeline w1 = timeline w @ [?ps[ob := StopRequested], ?ps[ob := Dead]]"
      by (simp add: w1 timeline_set_phase map_phase_set_phase)
    have ph: "map phase (observers w1) = ?ps[ob := Dead]"
      by (simp add: w1 map_phase_set_phase)
    have len: "length (observers w1) = length (observers w)"
      using arg_cong [OF ph, of length] by simp
    have nth: "phase (observers w1 ! j) = (?ps[ob := Dead]) ! j" if "j < length (observers w)" for j
      using that len ph by (metis nth_map)
    have dead: "\<forall>j<length (observers w1). \<not> alive (phase (observers w1 ! j))"
      using others ob len nth by (auto simp: nth_list_update)
    have "phase (observers w1 ! ob) = Dead"
      using nth [OF ob] ob by simp
    with r len tl dead cnt Some show ?thesis
      by auto
  next
    case StopRequested
    with sc Some po have r: "r = Return ()" and w1: "w1 = set_phase ob Dead w"
      by (auto simp: stop_current_def Observer_stop_def Observer_join_def Let_def)
    have tl: "timeline w1 = timeline w @ [?ps[ob := Dead]]"
      by (simp add: w1 timeline_set_phase)
    have ph: "map phase (observers w1) = ?ps[ob := Dead]"
      by (simp add: w1 map_phase_set_phase)
    have len: "length (observers w1) = length (observers w)"
      using arg_cong [OF ph, of length] by simp
    have nth: "phase (observers w1 ! j) = (?ps[ob := Dead]) ! j" if "j < length (observers w)" for j
      using that len ph by (metis nth_map)
    have dead: "\<forall>j<length (observers w1). \<not> alive (phase (observers w1 ! j))"
      using others ob len nth by (auto simp: nth_list_update)
    have "phase (observers w1 ! ob) = Dead"
      using nth [OF ob] ob by simp
    with r len tl dead cnt Some show ?thesis
      by auto
  next
    case Dead
    with sc Some po have r: "r = Return ()" and w1: "w1 = w"
      by (auto simp: stop_current_def Observer_stop_def Observer_join_def Let_def)
    have "\<forall>j<length (observers w). \<not> alive (phase (observers w ! j))"
      using others Dead by (metis alive.simps(4))
    with r w1 Dead Some show ?thesis
      by auto
  qed
qed

lemma gvfn_frame:
  "stdin w = ls \<Longrightarrow>
   observers (snd (get_valid_folder_name w)) = observers w \<and>
   timeline (snd (get_valid_folder_name w)) = timeline w"
proof (induction ls arbitrary: w)
  case Nil
  then show ?case by (simp add: gvfn_eof print_msg_def)
next
  case (Cons l ls)
  show ?case
  proof (cases "validate_folder_name (strip l) = Inr True")
    case True
    with Cons.prems show ?thesis
      by (simp add: gvfn_good print_msg_def)
  next
    case False
    let ?w' = "print_msg (ErrorLine format_message)
      ((print_msg (PromptLine folder_prompt) w)\<lparr>stdin := ls\<rparr>)"
    have step: "get_valid_folder_name w = get_valid_folder_name ?w'"
      using Cons.prems False by (intro gvfn_bad) auto
    have "stdin ?w' = ls"
      by (simp add: print_msg_def)
    from Cons.IH [OF this] show ?thesis
      unfolding step by (simp add: print_msg_def)
  qed
qed

lemma start_monitoring_try_effect:
  assumes "start_monitoring_try env src (self, w) = (r, self', w')"
  shows "self' = self\<lparr>observer := Some (length (observers w))\<rparr> \<and>
    (\<exists>x. map phase (observers w') = map phase (observers w) @ [x]) \<and>
    (\<exists>snaps. timeline w' = timeline w @ snaps \<and>
       (\<forall>ps\<in>set snaps. \<exists>x. ps = map phase (observers w) @ [x]))"
proof -
  let ?n = "length (observers w)"
  let ?P = "map phase (observers w)"
  let ?h = "\<lparr>source_dir = src, destination_dir = monitor_destination_dir self,
             processing_files = {}\<rparr>"
  define wn where "wn = snd (Observer_new w)"
  have fst_new: "fst (Observer_new w) = ?n"
    by (simp add: Observer_new_def)
  have on: "observers wn = observers w @ [\<lparr>phase = Unstarted, watches = []\<rparr>]"
    and tn: "timeline wn = timeline w @ [?P @ [Unstarted]]"
    by (simp_all add: wn_def Observer_new_def snapshot_def)
  show ?thesis
  proof (cases "fault env OpSchedule")
    case (Some e)
    with assms have "self' = self\<lparr>observer := Some ?n\<rparr>" "w' = wn"
      by (simp_all add: start_monitoring_try_def Let_def fst_new wn_def Observer_schedule_def)
    with on tn show ?thesis by simp
  next
    case None
    define w2 where "w2 = wn\<lparr>observers := (observers wn)
                 [?n := (observers wn ! ?n)\<lparr>watches := watches (observers wn ! ?n) @
                                                     [(src, ?h)]\<rparr>]\<rparr>"
    have sch: "Observer_schedule env ?n ?h src wn = Inr w2"
      using None by (simp add: Observer_schedule_def w2_def)
    have o2: "observers w2 = observers w @ [\<lparr>phase = Unstarted, watches = [(src, ?h)]\<rparr>]"
      and t2: "timeline w2 = timeline w @ [?P @ [Unstarted]]"
      by (simp_all add: w2_def on tn)
    show ?thesis
    proof (cases "fault env OpStart")
      case (Some e)
      with assms sch have "self' = self\<lparr>observer := Some ?n\<rparr>" "w' = w2"
        by (simp_all add: start_monitoring_try_def Let_def fst_new wn_def [symmetric]
            Observer_start_def)
      with o2 t2 show ?thesis by simp
    next
      case None
      have p2: "phase_of w2 ?n = Some Unstarted"
        by (simp add: phase_of_def o2)
      define w3 where "w3 = set_phase ?n Running w2"
      have st: "Observer_start env ?n w2 = Inr w3"
        using None p2 by (simp add: Observer_start_def w3_def)
      have upd: "(?P @ [Unstarted])[?n := Running] = ?P @ [Running]"
        using list_update_length [of ?P Unstarted "[]" Running] by simp
      have o3: "map phase (observers w3) = ?P @ [Running]"
        by (simp add: w3_def map_phase_set_phase o2 upd)
      have t3: "timeline w3 = timeline w @ [?P @ [Unstarted], ?P @ [Running]]"
        by (simp add: w3_def timeline_set_phase o2 t2 upd)
      from assms sch st have "self' = self\<lparr>observer := Some ?n\<rparr>"
        and "observers w' = observers w3" and "timeline w' = timeline w3"
        by (auto simp: start_monitoring_try_def Let_def fst_new wn_def [symmetric]
            logging_info_def print_msg_def)
      with o3 t3 show ?thesis by simp
    qed
  qed
qed

lemma monitor_ok_alive_count:
  assumes "monitor_ok self w"
  shows "alive_count (map phase (observers w)) \<le> 1"
proof (cases "observer self")
  case None
  with assms have "\<forall>j<length (map phase (observers w)). \<not> alive (map phase (observers w) ! j)"
    by (simp add: monitor_ok_iff)
  then show ?thesis
    by (simp add: alive_count_none)
next
  case (Some ob)
  let ?P = "map phase (observers w)"
  from assms Some have ob: "ob < length ?P"
    and others: "\<forall>j<length ?P. j \<noteq> ob \<longrightarrow> \<not> alive (?P ! j)"
    by (auto simp: monitor_ok_iff)
  from alive_count_update [OF ob others, of "?P ! ob"] show ?thesis
    by (simp split: if_splits)
qed

lemma start_monitoring_effect:
  assumes quiet: "\<forall>j<length (observers w). \<not> alive (phase (observers w ! j))"
    and ref: "\<forall>ob. observer self = Some ob \<longrightarrow> ob < length (observers w)"
    and sm: "start_monitoring env (self, w) = (r, self', w')"
  shows "r \<noteq> Blocked \<and> monitor_ok self' w' \<and>
     (\<exists>snaps. timeline w' = timeline w @ snaps \<and>
        (\<forall>ps\<in>set snaps. alive_count ps \<le> 1 \<and> length ps = Suc (length (observers w)) \<and>
           take (length (observers w)) ps = map phase (observers w)))"
proof -
  let ?n = "length (observers w)"
  let ?P = "map phase (observers w)"
  have nb: "r \<noteq> Blocked"
    using start_monitoring_returns [of env "(self, w)"] sm by simp
  have idle: "monitor_ok self (print_msg x w)" for x
    using quiet ref by (simp add: monitor_ok_iff print_msg_def)
  have P0: "alive_count ?P = 0"
    using quiet by (simp add: alive_count_none)
  show ?thesis
  proof (cases "\<exists>src. current_source_dir self = Some src \<and> path_exists w src")
    case False
    with sm have "self' = self" and "\<exists>x. w' = print_msg x w"
      by (auto simp: start_monitoring_def Let_def split: option.splits)
    with idle nb show ?thesis
      by (auto simp: print_msg_def)
  next
    case True
    then obtain src where src: "current_source_dir self = Some src" "path_exists w src"
      by blast
    obtain r0 s0 w0 where t: "start_monitoring_try env src (self, w) = (r0, s0, w0)"
      by (metis prod_cases3)
    from start_monitoring_try_effect [OF t]
    obtain x snaps where s0: "s0 = self\<lparr>observer := Some ?n\<rparr>"
      and o0: "map phase (observers w0) = ?P @ [x]"
      and t0: "timeline w0 = timeline w @ snaps"
      and sn: "\<forall>ps\<in>set snaps. \<exists>x. ps = ?P @ [x]"
      by blast
    from sm src t have self': "self' = s0"
      and ow: "observers w' = observers w0" and tw: "timeline w' = timeline w0"
      by (auto simp: start_monitoring_def Let_def print_msg_def logging_error_def
               split: sum.splits if_splits)
    have len: "length (observers w') = Suc ?n"
      using arg_cong [OF o0, of length] ow by simp
    have nth: "phase (observers w' ! j) = ?P ! j" if "j < ?n" for j
    proof -
      have "phase (observers w' ! j) = map phase (observers w') ! j"
        using that len by simp
      also have "\<dots> = (?P @ [x]) ! j"
        using o0 ow by simp
      also have "\<dots> = ?P ! j"
        using that by (simp add: nth_append)
      finally show ?thesis .
    qed
    have "\<forall>j<length (observers w'). alive (phase (observers w' ! j)) \<longrightarrow> j = ?n"
    proof (intro allI impI)
      fix j assume j: "j < length (observers w')" and a: "alive (phase (observers w' ! j))"
      show "j = ?n"
      proof (rule ccontr)
        assume "j \<noteq> ?n"
        with j len have jn: "j < ?n" by simp
        with nth [OF jn] a quiet show False by simp
      qed
    qed
    then have ok: "monitor_ok self' w'"
      using len by (auto simp: monitor_ok_iff self' s0)
    have "\<forall>ps\<in>set snaps. alive_count ps \<le> 1 \<and> length ps = Suc ?n \<and> take ?n ps = ?P"
    proof
      fix ps assume "ps \<in> set snaps"
      with sn obtain y where "ps = ?P @ [y]" by blast
      then show "alive_count ps \<le> 1 \<and> length ps = Suc ?n \<and> take ?n ps = ?P"
        using P0 by (simp add: alive_count_snoc)
    qed
    with nb ok tw t0 show ?thesis
      by auto
  qed
qed

text \<open>
  Claim C7. Let the monitor refer to an allocated observer, and let no other observer be
  alive. Then \<open>change_source_folder\<close> comes back (its \<open>join\<close> follows \<open>stop\<close>, so it does not
  wait for ever). In every state of the observers it passes through, at most one observer
  is alive, and in every such state in which a new observer exists the observer the monitor
  referred to before is dead: \<open>stop\<close> and \<open>join\<close> have returned before \<open>Observer()\<close> and
  \<open>start()\<close> are called. Afterwards the monitor again refers to an allocated observer, no
  other observer is alive, and so at most one is: callbacks come from one session only.
\<close>

theorem change_source_folder_one_session:
  assumes ok: "monitor_ok self w"
    and csf: "change_source_folder env (self, w) = (r, self', w')"
  shows "r \<noteq> Blocked \<and> monitor_ok self' w' \<and>
    (\<exists>snaps. timeline w' = timeline w @ snaps \<and>
       (\<forall>ps\<in>set snaps. alive_count ps \<le> 1 \<and>
          (\<forall>ob. observer self = Some ob \<longrightarrow> length (observers w) < length ps \<longrightarrow>
                ps ! ob = Dead))) \<and>
    alive_count (map phase (observers w')) \<le> 1"
proof -
  let ?n = "length (observers w)"
  obtain r1 w1 where sc: "stop_current self w = (r1, w1)"
    by (metis prod.exhaust)
  from stop_current_effect [OF ok sc]
  obtain snapsA where nb1: "r1 \<noteq> Blocked"
    and len1: "length (observers w1) = ?n"
    and tl1: "timeline w1 = timeline w @ snapsA"
    and snA: "\<forall>ps\<in>set snapsA. length ps = ?n \<and> alive_count ps \<le> 1"
    and ret: "r1 = Return () \<longrightarrow>
       (\<forall>j<length (observers w1). \<not> alive (phase (observers w1 ! j))) \<and>
       (\<forall>ob. observer self = Some ob \<longrightarrow> phase (observers w1 ! ob) = Dead)"
    and exc: "r1 \<noteq> Return () \<longrightarrow> w1 = w"
    by blast
  have ref: "\<forall>ob. observer self = Some ob \<longrightarrow> ob < ?n"
    using ok unfolding monitor_ok_iff by blast
  have main: "r \<noteq> Blocked \<and> monitor_ok self' w' \<and>
    (\<exists>snaps. timeline w' = timeline w @ snaps \<and>
       (\<forall>ps\<in>set snaps. alive_count ps \<le> 1 \<and>
          (\<forall>ob. observer self = Some ob \<longrightarrow> ?n < length ps \<longrightarrow> ps ! ob = Dead)))"
  proof (cases "r1 = Return ()")
    case False
    with nb1 obtain e where e: "r1 = Raise e"
      by (cases r1) auto
    with csf sc have "r = Raise e" "self' = self" "w' = w1"
      by (simp_all add: change_source_folder_def Let_def)
    with exc False ok show ?thesis
      by auto
  next
    case True
    with ret have quiet1: "\<forall>j<length (observers w1). \<not> alive (phase (observers w1 ! j))"
      and dead1: "\<forall>ob. observer self = Some ob \<longrightarrow> phase (observers w1 ! ob) = Dead"
      by blast+
    obtain r2 w2 where g: "get_valid_folder_name w1 = (r2, w2)"
      by (metis prod.exhaust)
    from gvfn_frame [OF refl, of w1] g
    have o2: "observers w2 = observers w1" and t2: "timeline w2 = timeline w1"
      by simp_all
    have snA': "\<forall>ps\<in>set snapsA. alive_count ps \<le> 1 \<and>
          (\<forall>ob. observer self = Some ob \<longrightarrow> ?n < length ps \<longrightarrow> ps ! ob = Dead)"
      using snA by auto
    show ?thesis
    proof (cases r2)
      case (Inl e)
      with csf sc True g have "r = Raise e" "self' = self" "w' = w2"
        by (simp_all add: change_source_folder_def Let_def)
      moreover have "monitor_ok self w2"
        using quiet1 ref len1 o2 by (simp add: monitor_ok_iff)
      ultimately show ?thesis
        using t2 tl1 snA' by auto
    next
      case (Inr folder_name)
      let ?self2 = "self\<lparr>current_source_dir := Some (base_source_dir self @ [folder_name])\<rparr>"
      from csf sc True g Inr have sm: "start_monitoring env (?self2, w2) = (r, self', w')"
        by (simp add: change_source_folder_def Let_def)
      have q2: "\<forall>j<length (observers w2). \<not> alive (phase (observers w2 ! j))"
        using quiet1 o2 by simp
      have r2: "\<forall>ob. observer ?self2 = Some ob \<longrightarrow> ob < length (observers w2)"
        using ref o2 len1 by simp
      from start_monitoring_effect [OF q2 r2 sm]
      obtain snapsC where nb: "r \<noteq> Blocked" and ok': "monitor_ok self' w'"
        and tl: "timeline w' = timeline w2 @ snapsC"
        and snC: "\<forall>ps\<in>set snapsC. alive_count ps \<le> 1 \<and>
           length ps = Suc (length (observers w2)) \<and>
           take (length (observers w2)) ps = map phase (observers w2)"
        by blast
      have "\<forall>ps\<in>set snapsC. alive_count ps \<le> 1 \<and>
          (\<forall>ob. observer self = Some ob \<longrightarrow> ?n < length ps \<longrightarrow> ps ! ob = Dead)"
      proof (intro ballI conjI allI impI)
        fix ps assume ps: "ps \<in> set snapsC"
        with snC show "alive_count ps \<le> 1" by blast
        fix ob assume ob: "observer self = Some ob"
        with ref have lt: "ob < ?n" by blast
        from ps snC have tk: "take ?n ps = map phase (observers w1)"
          using o2 len1 by simp
        have "ps ! ob = take ?n ps ! ob"
          using lt by simp
        also have "\<dots> = phase (observers w1 ! ob)"
          using tk lt len1 by simp
        also have "\<dots> = Dead"
          using dead1 ob by blast
        finally show "ps ! ob = Dead" .
      qed
      with snA' have "\<forall>ps\<in>set (snapsA @ snapsC). alive_count ps \<le> 1 \<and>
          (\<forall>ob. observer self = Some ob \<longrightarrow> ?n < length ps \<longrightarrow> ps ! ob = Dead)"
        by auto
      moreover have "timeline w' = timeline w @ (snapsA @ snapsC)"
        using tl t2 tl1 by simp
      ultimately show ?thesis
        using nb ok' by blast
    qed
  qed
  then have "monitor_ok self' w'" by blast
  then have "alive_count (map phase (observers w')) \<le> 1"
    by (rule monitor_ok_alive_count)
  with main show ?thesis by blast
qed

lemma folder_02_05: "strip ''02-05'' = ''02-05''" "validate_folder_name ''02-05'' = Inr True"
  by (simp_all add: strip_def is_space_def validate_folder_name_def re_match_def pattern_def
      rx_item_Rep2 is_digit_def)

lemma switch_folder:
  "change_source_folder quiet_env (monitor0, watching [''02-05'']) =
     (Return (),
      monitor0\<lparr>observer := Some 1, current_source_dir := Some [''output'', ''02-05'']\<rparr>,
      (watching [])
        \<lparr>console := [PromptLine folder_prompt,
                     MonitoringStarted ''10:15:00 AM'' [''output'', ''02-05''] inbox],
         logrecs := [LogInfo ''Started monitoring directory: /output/02-05''],
         observers :=
           [\<lparr>phase = Dead, watches = [([''output'', ''01-04''], handler0)]\<rparr>,
            \<lparr>phase = Running,
             watches = [([''output'', ''02-05''],
                         \<lparr>source_dir = [''output'', ''02-05''], destination_dir = inbox,
                          processing_files = {}\<rparr>)]\<rparr>],
         timeline := [[StopRequested], [Dead], [Dead, Unstarted], [Dead, Running]]\<rparr>)"
  by (simp add: change_source_folder_def stop_current_def Observer_stop_def Observer_join_def
      phase_of_def set_phase_def snapshot_def gvfn_good folder_02_05 print_msg_def
      start_monitoring_def start_monitoring_try_def path_exists_def Observer_new_def
      Observer_schedule_def Observer_start_def logging_info_def path_str_def
      monitor0_def watching_def FileMonitor_init_def quiet_env_def inbox_def Let_def)

lemma monitor0_ok: "monitor_ok monitor0 (watching ls)"
  by (simp add: monitor_ok_def monitor0_def watching_def FileMonitor_init_def)

theorem change_source_folder_one_session_witness:
  "monitor_ok monitor0 (watching [''02-05'']) \<and>
   (\<exists>self' w'.
      change_source_folder quiet_env (monitor0, watching [''02-05'']) = (Return (), self', w') \<and>
      observer self' = Some 1 \<and>
      timeline w' = [[StopRequested], [Dead], [Dead, Unstarted], [Dead, Running]] \<and>
      monitor_ok self' w' \<and>
      alive_count (map phase (observers w')) \<le> 1)"
proof -
  from change_source_folder_one_session [OF monitor0_ok switch_folder]
  have "monitor_ok
      (monitor0\<lparr>observer := Some 1, current_source_dir := Some [''output'', ''02-05'']\<rparr>)
      ((watching [])
        \<lparr>console := [PromptLine folder_prompt,
                     MonitoringStarted ''10:15:00 AM'' [''output'', ''02-05''] inbox],
         logrecs := [LogInfo ''Started monitoring directory: /output/02-05''],
         observers :=
           [\<lparr>phase = Dead, watches = [([''output'', ''01-04''], handler0)]\<rparr>,
            \<lparr>phase = Running,
             watches = [([''output'', ''02-05''],
                         \<lparr>source_dir = [''output'', ''02-05''], destination_dir = inbox,
                          processing_files = {}\<rparr>)]\<rparr>],
         timeline := [[StopRequested], [Dead], [Dead, Unstarted], [Dead, Running]]\<rparr>)"
    and "alive_count (map phase (observers ((watching [])
        \<lparr>console := [PromptLine folder_prompt,
                     MonitoringStarted ''10:15:00 AM'' [''output'', ''02-05''] inbox],
         logrecs := [LogInfo ''Started monitoring directory: /output/02-05''],
         observers :=
           [\<lparr>phase = Dead, watches = [([''output'', ''01-04''], handler0)]\<rparr>,
            \<lparr>phase = Running,
             watches = [([''output'', ''02-05''],
                         \<lparr>source_dir = [''output'', ''02-05''], destination_dir = inbox,
                          processing_files = {}\<rparr>)]\<rparr>],
         timeline := [[StopRequested], [Dead], [Dead, Unstarted], [Dead, Running]]\<rparr>))) \<le> 1"
    by blast+
  with monitor0_ok switch_folder show ?thesis
    by simp
qed

end
